theory Spec2Isabelle
  imports Main
begin

section \<open>JavaScript values and plain objects\<close>

text \<open>
  The values that entities, diffs and history rows are made of. A number is an \<open>int\<close>
  (floating point, \<open>NaN\<close> and the infinities are outside the model), a \<open>Date\<close> is its
  time value in milliseconds, an array is the list of its elements (arrays with holes
  or with properties other than their elements are outside the model), and a plain
  object is the list of its own enumerable properties in enumeration order, which is
  insertion order (that integer-like keys enumerate first is not modelled: objects are
  compared through their properties, never through the order of the list). Functions do
  not occur as property values, and no property of the model's objects shadows an
  inherited method. A string is a list of characters of the 8-bit type \<open>char\<close>; strings
  with other characters are outside the model.
\<close>

datatype jsval =
    JUndefined
  | JNull
  | JBool bool
  | JNum int
  | JStr string
  | JDate int
  | JArr "jsval list"
  | JObj "(string \<times> jsval) list"

type_synonym obj = "(string \<times> jsval) list"

text \<open>What the program throws: a \<open>TypeError\<close> for a property read on \<open>undefined\<close> or a
  call of something that is no function, the \<open>Error\<close> of line 142 for an entity that is
  not registered, and a failure of the persistence layer.\<close>

datatype error =
    TypeError
  | NotRegistered
  | PersistenceError

text \<open>\<open>Object.keys(o)\<close>, \<open>o.hasOwnProperty(k)\<close> and the property read \<open>o[k]\<close>, which
  yields \<open>undefined\<close> for a property the object does not have.\<close>

definition keys :: "obj \<Rightarrow> string list" where
  "keys ps = map fst ps"

definition has_own :: "obj \<Rightarrow> string \<Rightarrow> bool" where
  "has_own ps k = (k \<in> set (keys ps))"

definition obj_get :: "obj \<Rightarrow> string \<Rightarrow> jsval" where
  "obj_get ps k = (case map_of ps k of None \<Rightarrow> JUndefined | Some v \<Rightarrow> v)"

text \<open>The property write \<open>o[k] = v\<close>: an existing property keeps its place, a new one
  is appended.\<close>

fun obj_set :: "string \<Rightarrow> jsval \<Rightarrow> obj \<Rightarrow> obj" where
  "obj_set k v [] = [(k, v)]"
| "obj_set k v (p # ps) = (if fst p = k then (k, v) # ps else p # obj_set k v ps)"

text \<open>\<open>Object.assign(target, source)\<close>, which is also what a spread \<open>...source\<close>
  does inside an object literal: every own property of the source is written to the
  target, in the source's order.\<close>

definition object_assign :: "obj \<Rightarrow> obj \<Rightarrow> obj" where
  "object_assign target source = fold (\<lambda>(k, v) acc. obj_set k v acc) source target"

text \<open>The own enumerable properties of any value, as \<open>Object.keys\<close> and a spread see
  them: a plain object has its properties, an array has its elements and a string has
  its characters, both under their decimal indices, and \<open>undefined\<close>, \<open>null\<close>,
  booleans, numbers and dates have none.\<close>

fun string_of_nat :: "nat \<Rightarrow> string" where
  "string_of_nat n =
     (if n < 10 then [char_of (48 + n)]
      else string_of_nat (n div 10) @ [char_of (48 + n mod 10)])"

declare string_of_nat.simps [simp del]

fun own_props :: "jsval \<Rightarrow> obj" where
  "own_props (JObj ps) = ps"
| "own_props (JArr xs) = map (\<lambda>(i, x). (string_of_nat i, x)) (enumerate 0 xs)"
| "own_props (JStr s) = map (\<lambda>(i, c). (string_of_nat i, JStr [c])) (enumerate 0 s)"
| "own_props v = []"

text \<open>Arrays and strings have one more own property, \<open>length\<close>, which is not
  enumerable. \<open>hasOwnProperty\<close> is
  \<open>Object.prototype.hasOwnProperty.call(o, key)\<close>, and \<open>own_value o key\<close> is the
  property read \<open>o[key]\<close> for a key that is an own property of \<open>o\<close> or that \<open>o\<close> does
  not have at all.\<close>

fun has_length :: "jsval \<Rightarrow> bool" where
  "has_length (JArr xs) = True"
| "has_length (JStr s) = True"
| "has_length v = False"

definition hasOwnProperty :: "jsval \<Rightarrow> string \<Rightarrow> bool" where
  "hasOwnProperty v key =
     (has_own (own_props v) key \<or> (has_length v \<and> key = ''length''))"

definition own_value :: "jsval \<Rightarrow> string \<Rightarrow> jsval" where
  "own_value v key =
     (if has_own (own_props v) key then obj_get (own_props v) key
      else if has_length v \<and> key = ''length'' then JNum (int (length (own_props v)))
      else JUndefined)"

section \<open>The structural diff of deep-object-diff\<close>

text \<open>
  \<open>deepDiff\<close> is the function \<open>diff\<close> of the package deep-object-diff, which index.ts
  imports in line 1. The package is a dependency, not part of the repository's sources;
  the definitions of this section follow the package's implementation in its release
  1.1.9 (\<open>diff(originalObj, updatedObj)\<close> with its helpers \<open>isObject\<close>, \<open>isDate\<close> and
  \<open>isEmptyObject\<close>), statement by statement. The first argument is the original
  object, the second the updated one, and the values of the result are taken from the
  second:
  \<^verbatim>\<open>
  const diff = (lhs, rhs) => {
    if (lhs === rhs) return {};
    if (!isObject(lhs) || !isObject(rhs)) return rhs;
    const deletedValues = Object.keys(lhs).reduce((acc, key) => {
      if (!hasOwnProperty(rhs, key)) { acc[key] = undefined; }
      return acc;
    }, makeObjectWithoutPrototype());
    if (isDate(lhs) || isDate(rhs)) {
      if (lhs.valueOf() == rhs.valueOf()) return {};
      return rhs;
    }
    return Object.keys(rhs).reduce((acc, key) => {
      if (!hasOwnProperty(lhs, key)) { acc[key] = rhs[key]; return acc; }
      const difference = diff(lhs[key], rhs[key]);
      if (isEmptyObject(difference) && !isDate(difference)
          && (isEmptyObject(lhs[key]) || !isEmptyObject(rhs[key])))
        return acc;
      acc[key] = difference;
      return acc;
    }, deletedValues);
  };
  \<close>
\<close>

text \<open>\<open>o != null && typeof o === 'object'\<close>, \<open>d instanceof Date\<close>, and
  \<open>isObject(o) && Object.keys(o).length === 0\<close>.\<close>

fun isObject :: "jsval \<Rightarrow> bool" where
  "isObject (JObj ps) = True"
| "isObject (JArr xs) = True"
| "isObject (JDate t) = True"
| "isObject v = False"

fun isDate :: "jsval \<Rightarrow> bool" where
  "isDate (JDate t) = True"
| "isDate v = False"

definition isEmptyObject :: "jsval \<Rightarrow> bool" where
  "isEmptyObject v = (isObject v \<and> keys (own_props v) = [])"

text \<open>\<open>lhs === rhs\<close>. Primitive values are compared by value. Objects, arrays and dates
  are compared by reference, and the two sides of a diff are separately built objects
  (the entity being saved and the entity loaded from the database), so the test is
  false for them; \<open>deepDiff_same\<close> below shows that the result would be the same \<open>{}\<close>
  if the two sides were one object.\<close>

fun strict_equal :: "jsval \<Rightarrow> jsval \<Rightarrow> bool" where
  "strict_equal (JObj a) w = False"
| "strict_equal (JArr a) w = False"
| "strict_equal (JDate a) w = False"
| "strict_equal v w = (v = w)"

text \<open>\<open>lhs.valueOf() == rhs.valueOf()\<close>, which is evaluated only when both sides are
  objects and one of them is a date. Two dates are equal when their time values are.
  When only one side is a date, its time value is compared with an array or a plain
  object by the loose equality of the runtime, which goes through the string form of
  that object; this comparison is not modelled: it is the parameter \<open>looseEquals\<close> of
  the diff, and what is proved holds whatever it answers.\<close>

type_synonym loose_equality = "jsval \<Rightarrow> jsval \<Rightarrow> bool"

fun valueOf_equal :: "loose_equality \<Rightarrow> jsval \<Rightarrow> jsval \<Rightarrow> bool" where
  "valueOf_equal looseEquals (JDate a) (JDate b) = (a = b)"
| "valueOf_equal looseEquals v w = looseEquals v w"

lemma size_obj_get: "has_own ps k \<Longrightarrow> size (obj_get ps k) < size (JObj ps)"
proof (induction ps)
  case Nil
  then show ?case by (simp add: has_own_def keys_def)
next
  case (Cons p ps)
  show ?case
  proof (cases "fst p = k")
    case True
    then show ?thesis by (cases p) (simp add: obj_get_def)
  next
    case False
    with Cons.prems have "has_own ps k" by (auto simp: has_own_def keys_def)
    from Cons.IH [OF this] False show ?thesis by (cases p) (simp add: obj_get_def)
  qed
qed

lemma obj_get_element:
  assumes "has_own (own_props (JArr xs)) k"
  shows "obj_get (own_props (JArr xs)) k \<in> set xs"
proof -
  from assms have "map_of (own_props (JArr xs)) k \<noteq> None"
    by (simp add: has_own_def keys_def map_of_eq_None_iff del: own_props.simps)
  then obtain x where x: "map_of (own_props (JArr xs)) k = Some x"
    by auto
  then have "(k, x) \<in> set (own_props (JArr xs))"
    by (rule map_of_SomeD)
  then have "x \<in> set xs"
    by (auto simp: in_set_enumerate_eq)
  with x show ?thesis by (simp add: obj_get_def del: own_props.simps)
qed

lemma size_own_value:
  assumes "isObject v" and "key \<in> set (keys (own_props v))"
  shows "size (own_value v key) < size v"
proof (cases v)
  case (JObj ps)
  with assms(2) show ?thesis
    using size_obj_get [of ps key] by (simp add: own_value_def has_own_def)
next
  case (JArr xs)
  with assms(2) have h: "has_own (own_props (JArr xs)) key"
    by (simp add: has_own_def)
  from obj_get_element [OF h] have "size (obj_get (own_props (JArr xs)) key) \<le> size_list size xs"
    by (rule size_list_estimation') simp
  with h show ?thesis
    by (simp add: JArr own_value_def del: own_props.simps)
next
  case (JDate t)
  with assms(2) show ?thesis by (simp add: keys_def)
qed (use assms(1) in simp_all)

function deepDiff :: "loose_equality \<Rightarrow> jsval \<Rightarrow> jsval \<Rightarrow> jsval" where
  "deepDiff looseEquals lhs rhs =
    (if strict_equal lhs rhs then JObj []
     else if \<not> isObject lhs \<or> \<not> isObject rhs then rhs
     else
       let deletedValues =
             fold (\<lambda>key acc.
                    if \<not> hasOwnProperty rhs key then obj_set key JUndefined acc else acc)
               (keys (own_props lhs)) []
       in if isDate lhs \<or> isDate rhs
          then (if valueOf_equal looseEquals lhs rhs then JObj [] else rhs)
          else JObj (fold (\<lambda>key acc.
                 if \<not> hasOwnProperty lhs key
                 then obj_set key (own_value rhs key) acc
                 else
                   let difference =
                         deepDiff looseEquals (own_value lhs key) (own_value rhs key)
                   in if isEmptyObject difference \<and> \<not> isDate difference
                         \<and> (isEmptyObject (own_value lhs key)
                              \<or> \<not> isEmptyObject (own_value rhs key))
                      then acc
                      else obj_set key difference acc)
               (keys (own_props rhs)) deletedValues))"
  by pat_completeness auto
termination
proof (relation "measure (\<lambda>(looseEquals, lhs, rhs). size rhs)")
  show "wf (measure (\<lambda>(looseEquals, lhs, rhs). size rhs))" by simp
next
  fix looseEquals :: loose_equality and lhs rhs :: jsval and key :: string
  assume "\<not> (\<not> isObject lhs \<or> \<not> isObject rhs)" and "key \<in> set (keys (own_props rhs))"
  then show "((looseEquals, own_value lhs key, own_value rhs key), looseEquals, lhs, rhs)
       \<in> measure (\<lambda>(looseEquals, lhs, rhs). size rhs)"
    using size_own_value [of rhs key] by simp
qed

declare deepDiff.simps [simp del]

section \<open>Hydrate\<close>

text \<open>The exported type \<open>History<E>\<close> (index.ts, lines 35-41), which is also the shape
  of an instance of the class \<open>MyHistoryEntity\<close> (lines 73-79). The field \<open>id\<close> is
  named \<open>id'\<close> here; a field that is not set is \<open>JUndefined\<close>.\<close>

record history =
  id' :: jsval
  origin :: jsval
  diff :: jsval
  historyDetails :: jsval
  createdAt :: jsval

text \<open>The object literal \<open>{ ...pivot, ...diff, id, historyDetails, createdAt }\<close> of
  line 155, built from the fields that the callback's parameter destructures.\<close>

definition next_pivot :: "obj \<Rightarrow> history \<Rightarrow> obj" where
  "next_pivot pivot h =
     obj_set ''createdAt'' (createdAt h)
       (obj_set ''historyDetails'' (historyDetails h)
         (obj_set ''id'' (id' h)
           (object_assign (object_assign [] pivot) (own_props (diff h)))))"

text \<open>\<open>history.map\<close> with the callback of lines 154-157: the variable \<open>pivot\<close> that the
  callback reassigns is the first argument.\<close>

fun hydrate_map :: "obj \<Rightarrow> history list \<Rightarrow> obj list" where
  "hydrate_map pivot [] = []"
| "hydrate_map pivot (h # hs) = next_pivot pivot h # hydrate_map (next_pivot pivot h) hs"

definition hydrate :: "obj \<Rightarrow> history list \<Rightarrow> obj list" where
  "hydrate current hs =
     hydrate_map (object_assign [(''originId'', obj_get current ''id'')] current) hs"

text \<open>The same function with its objects in an explicit store, to follow which objects
  it writes. A cell is a record object, a history row or an array of references; a
  reference is an index into the store and a new object is appended to it. Line 153
  allocates the literal \<open>{ originId: current.id }\<close> and \<open>Object.assign\<close> writes
  the properties of \<open>current\<close> into that new object, in place; each call of the callback
  allocates the object literal of line 155; \<open>map\<close> allocates the array it returns.\<close>

datatype cell = Record obj | Row history | Array "nat list"

type_synonym store = "cell list"

definition lookup :: "store \<Rightarrow> nat \<Rightarrow> cell option" where
  "lookup s r = (if r < length s then Some (s ! r) else None)"

definition alloc :: "cell \<Rightarrow> store \<Rightarrow> nat \<times> store" where
  "alloc c s = (length s, s @ [c])"

fun map_callback :: "nat \<Rightarrow> nat list \<Rightarrow> store \<Rightarrow> error + (nat list \<times> store)" where
  "map_callback pivot [] s = Inr ([], s)"
| "map_callback pivot (r # rs) s =
     (case (lookup s r, lookup s pivot) of
        (Some (Row h), Some (Record p)) \<Rightarrow>
          (let (pivot', s') = alloc (Record (next_pivot p h)) s
           in case map_callback pivot' rs s' of
                Inl e \<Rightarrow> Inl e
              | Inr (out, s'') \<Rightarrow> Inr (pivot' # out, s''))
      | _ \<Rightarrow> Inl TypeError)"

definition assign_in_store :: "nat \<Rightarrow> obj \<Rightarrow> store \<Rightarrow> store" where
  "assign_in_store target source s =
     (case lookup s target of
        Some (Record t) \<Rightarrow> s[target := Record (object_assign t source)]
      | _ \<Rightarrow> s)"

definition hydrate_store :: "nat \<Rightarrow> nat \<Rightarrow> store \<Rightarrow> error + (nat \<times> store)" where
  "hydrate_store current hist s =
     (case (lookup s current, lookup s hist) of
        (Some (Record cur), Some (Array rs)) \<Rightarrow>
          (let (target, s1) = alloc (Record [(''originId'', obj_get cur ''id'')]) s;
               s2 = assign_in_store target cur s1
           in case map_callback target rs s2 of
                Inl e \<Rightarrow> Inl e
              | Inr (out, s3) \<Rightarrow> Inr (alloc (Array out) s3))
      | _ \<Rightarrow> Inl TypeError)"

text \<open>What a reader of the store sees behind a reference to a record object, to an
  array of record objects and to an array of history rows.\<close>

definition read_record :: "store \<Rightarrow> nat \<Rightarrow> obj option" where
  "read_record s r = (case lookup s r of Some (Record p) \<Rightarrow> Some p | _ \<Rightarrow> None)"

definition read_row :: "store \<Rightarrow> nat \<Rightarrow> history option" where
  "read_row s r = (case lookup s r of Some (Row h) \<Rightarrow> Some h | _ \<Rightarrow> None)"

definition read_records :: "store \<Rightarrow> nat \<Rightarrow> obj list option" where
  "read_records s r =
     (case lookup s r of Some (Array rs) \<Rightarrow> those (map (read_record s) rs) | _ \<Rightarrow> None)"

definition read_rows :: "store \<Rightarrow> nat \<Rightarrow> history list option" where
  "read_rows s r =
     (case lookup s r of Some (Array rs) \<Rightarrow> those (map (read_row s) rs) | _ \<Rightarrow> None)"

section \<open>The history module\<close>

text \<open>An entity class is known to the module by its \<open>name\<close> property; two classes can
  have the same name, so a class also has an identity. \<open>MyHistoryEntity\<close> and
  \<open>MyEntitySubscriber\<close> are the two classes that \<open>createHistoryEntityAndSubscriber\<close>
  declares for an entity class: the history entity with the name of its table and the
  type name of its \<open>origin\<close> relation, and the subscriber with the class it listens to
  and the \<open>historyEntityName\<close> that its \<open>beforeUpdate\<close> closes over.\<close>

record entity_class =
  class_name :: string
  class_ident :: nat

datatype history_entity = MyHistoryEntity string string

datatype entity_subscriber = MyEntitySubscriber entity_class string

record entry =
  name :: string
  entity :: history_entity
  subscriber :: entity_subscriber

text \<open>\<open>Config.getRepository\<close> is the function that the application hands to \<open>setup\<close>
  (TypeORM's \<open>getRepository\<close>). The module calls it with the name of a history entity
  (line 94) or with a history entity class (line 145); it returns a repository or
  throws.\<close>

datatype entity_target = TargetName string | TargetClass history_entity

datatype repository = Repository string

record config =
  getRepository :: "entity_target \<Rightarrow> error + repository"

text \<open>The two static fields of \<open>HistoryModule\<close>; \<open>config\<close> is \<open>None\<close> until \<open>setup\<close>
  has been called.\<close>

record history_module =
  entries :: "entry list"
  config :: "config option"

definition initial_module :: history_module where
  "initial_module = \<lparr>entries = [], config = None\<rparr>"

text \<open>\<open>setup\<close> (the name is a keyword of Isabelle).\<close>

definition setup_module :: "config \<Rightarrow> history_module \<Rightarrow> history_module" where
  "setup_module c m = m\<lparr>config := Some c\<rparr>"

definition getEntities :: "history_module \<Rightarrow> history_entity list" where
  "getEntities m = map entity (entries m)"

definition getSubscribers :: "history_module \<Rightarrow> entity_subscriber list" where
  "getSubscribers m = map subscriber (entries m)"

text \<open>\<open>String.prototype.toLocaleLowerCase\<close> is a built-in of the JavaScript runtime: its
  result follows the Unicode case mappings and the default locale of the host. It is
  not part of the repository, so the functions that call it take it as their first
  argument, and what is proved about them holds for every such function.\<close>

type_synonym lower_casing = "string \<Rightarrow> string"

definition createHistoryEntityAndSubscriber :: "lower_casing \<Rightarrow> entity_class \<Rightarrow> entry" where
  "createHistoryEntityAndSubscriber toLocaleLowerCase entityClass =
     (let entityName = toLocaleLowerCase (class_name entityClass);
          historyEntityName = entityName @ ''_history''
      in \<lparr>name = entityName,
          entity = MyHistoryEntity historyEntityName (class_name entityClass),
          subscriber = MyEntitySubscriber entityClass historyEntityName\<rparr>)"

text \<open>\<open>MyEntitySubscriber.listenTo\<close> (lines 83-85).\<close>

fun listenTo :: "entity_subscriber \<Rightarrow> entity_class" where
  "listenTo (MyEntitySubscriber entityClass historyEntityName) = entityClass"

text \<open>The decorator that \<open>TrackHistory()\<close> returns, applied to its target.\<close>

definition TrackHistory ::
  "lower_casing \<Rightarrow> entity_class \<Rightarrow> history_module \<Rightarrow> entity_class \<times> history_module" where
  "TrackHistory toLocaleLowerCase target m =
     (let entry = createHistoryEntityAndSubscriber toLocaleLowerCase target
      in (target, m\<lparr>entries := entries m @ [entry]\<rparr>))"

definition trackHistory :: "lower_casing \<Rightarrow> entity_class \<Rightarrow> history_module \<Rightarrow> history_module" where
  "trackHistory toLocaleLowerCase MyEntity m =
     (let entry = createHistoryEntityAndSubscriber toLocaleLowerCase MyEntity
      in m\<lparr>entries := entries m @ [entry]\<rparr>)"

text \<open>The parameter \<open>entityClass: string | EntityTarget<E>\<close> of
  \<open>getHistoryRepository\<close>: a string, a class, or an object that is neither (an entity
  schema), whose \<open>toString()\<close> is \<open>[object Object]\<close>.\<close>

datatype entity_arg = ArgName string | ArgClass entity_class | ArgObject

definition lookup_name :: "lower_casing \<Rightarrow> entity_arg \<Rightarrow> string" where
  "lookup_name toLocaleLowerCase entityClass =
     toLocaleLowerCase
       (case entityClass of
          ArgClass c \<Rightarrow> class_name c
        | ArgName s \<Rightarrow> s
        | ArgObject \<Rightarrow> ''[object Object]'')"

definition getHistoryRepository ::
  "lower_casing \<Rightarrow> entity_arg \<Rightarrow> history_module \<Rightarrow> error + repository" where
  "getHistoryRepository toLocaleLowerCase entityClass m =
     (let entityName = lookup_name toLocaleLowerCase entityClass
      in case find (\<lambda>e. name e = entityName) (entries m) of
           None \<Rightarrow> Inl NotRegistered
         | Some e \<Rightarrow>
             (case config m of
                None \<Rightarrow> Inl TypeError
              | Some c \<Rightarrow> getRepository c (TargetClass (entity e))))"

section \<open>Diff-and-Record\<close>

text \<open>Modelled from the spec: the persistence layer behind a history repository
  (TypeORM's \<open>Repository.create\<close> and \<open>Repository.save\<close>), which is not part of the
  repository. The database holds the persisted history entries, each with the name of
  its repository, in the order of their insertion. \<open>create\<close> makes an entity from the
  properties it is given; \<open>save\<close> inserts it with the next sequential \<open>id\<close> of its
  repository and the current time as \<open>createdAt\<close>, or fails when the storage is not
  available, and then nothing is written.\<close>

record database =
  rows :: "(string \<times> history) list"
  clock :: int
  available :: bool

definition repository_create :: "obj \<Rightarrow> history" where
  "repository_create props =
     \<lparr>id' = obj_get props ''id'',
      origin = obj_get props ''origin'',
      diff = obj_get props ''diff'',
      historyDetails = obj_get props ''historyDetails'',
      createdAt = obj_get props ''createdAt''\<rparr>"

fun repository_save :: "repository \<Rightarrow> history \<Rightarrow> database \<Rightarrow> error + database" where
  "repository_save (Repository r) h db =
     (if available db
      then Inr (db\<lparr>rows := rows db @
                  [(r, h\<lparr>id' := JNum (1 + int (length (filter (\<lambda>(r', h'). r' = r) (rows db)))),
                         createdAt := JDate (clock db)\<rparr>)]\<rparr>)
      else Inl PersistenceError)"

text \<open>\<open>UpdateEvent<E>\<close>, as far as \<open>beforeUpdate\<close> reads it: \<open>event.entity\<close> and
  \<open>event.databaseEntity\<close>, either of which may be absent, and the object
  \<open>event.queryRunner.data\<close>.\<close>

record update_event =
  event_entity :: "obj option"
  databaseEntity :: "obj option"
  queryRunner_data :: obj

text \<open>\<open>isEmptyObj\<close> (lines 15-16): \<open>passedObj === Object(passedObj)\<close> holds exactly
  for a value that is an object.\<close>

fun truthy :: "jsval \<Rightarrow> bool" where
  "truthy JUndefined = False"
| "truthy JNull = False"
| "truthy (JBool b) = b"
| "truthy (JNum n) = (n \<noteq> 0)"
| "truthy (JStr s) = (s \<noteq> [])"
| "truthy v = True"

definition isEmptyObj :: "jsval \<Rightarrow> bool" where
  "isEmptyObj passedObj =
     (\<not> (truthy passedObj \<and> isObject passedObj \<and> length (keys (own_props passedObj)) \<noteq> 0))"

text \<open>\<open>event.entity || {}\<close>.\<close>

definition or_empty :: "obj option \<Rightarrow> obj" where
  "or_empty e = (case e of Some ps \<Rightarrow> ps | None \<Rightarrow> [])"

text \<open>\<open>MyEntitySubscriber.beforeUpdate\<close> (lines 87-98), run against the module's state
  and the database; its first argument is the runtime's loose equality that the diff
  may consult.\<close>

fun beforeUpdate ::
  "loose_equality \<Rightarrow> entity_subscriber \<Rightarrow> history_module \<Rightarrow> update_event \<Rightarrow> database
   \<Rightarrow> error + database" where
  "beforeUpdate looseEquals (MyEntitySubscriber entityClass historyEntityName) m event db =
     (let newEntity = or_empty (event_entity event);
          oldEntity = or_empty (databaseEntity event);
          details = obj_get (queryRunner_data event) ''historyDetails'';
          difference = deepDiff looseEquals (JObj newEntity) (JObj oldEntity)
      in if \<not> isEmptyObj difference
         then (case config m of
                 None \<Rightarrow> Inl TypeError
               | Some c \<Rightarrow>
                   (case getRepository c (TargetName historyEntityName) of
                      Inl e \<Rightarrow> Inl e
                    | Inr historyRepository \<Rightarrow>
                        repository_save historyRepository
                          (repository_create
                             [(''origin'', obj_get oldEntity ''id''),
                              (''diff'', difference),
                              (''historyDetails'', details)])
                          db))
         else Inr db)"

declare beforeUpdate.simps [simp del]

section \<open>The notions that the theorems are stated with\<close>

text \<open>Hydrate as the specification describes it, on objects as finite maps: the pivot
  starts as \<open>current\<close> augmented with an \<open>originId\<close> field equal to \<open>current.id\<close>; for
  each entry in order, the entry's diff is overlaid onto the pivot, then the pivot's
  \<open>id\<close>, \<open>historyDetails\<close> and \<open>createdAt\<close> are overridden with the entry's own values,
  and the resulting pivot is that position's output.\<close>

definition claimed_start :: "obj \<Rightarrow> (string \<rightharpoonup> jsval)" where
  "claimed_start current = (map_of current)(''originId'' \<mapsto> obj_get current ''id'')"

definition claimed_step :: "(string \<rightharpoonup> jsval) \<Rightarrow> history \<Rightarrow> (string \<rightharpoonup> jsval)" where
  "claimed_step pivot h =
     (pivot ++ map_of (own_props (diff h)))
       (''id'' \<mapsto> id' h, ''historyDetails'' \<mapsto> historyDetails h, ''createdAt'' \<mapsto> createdAt h)"

fun claimed_fold :: "(string \<rightharpoonup> jsval) \<Rightarrow> history list \<Rightarrow> (string \<rightharpoonup> jsval) list" where
  "claimed_fold pivot [] = []"
| "claimed_fold pivot (h # hs) = claimed_step pivot h # claimed_fold (claimed_step pivot h) hs"

definition hydrate_claimed :: "obj \<Rightarrow> history list \<Rightarrow> (string \<rightharpoonup> jsval) list" where
  "hydrate_claimed current hs = claimed_fold (claimed_start current) hs"

text \<open>Structural equality of two values: primitives and dates by value, two plain
  objects by having the same keys with structurally equal values, whatever the order of
  the keys, and two arrays by having the same indices with structurally equal
  elements.\<close>

function (sequential) deep_equal :: "jsval \<Rightarrow> jsval \<Rightarrow> bool" where
  "deep_equal (JObj a) (JObj b) =
     (set (keys a) = set (keys b)
      \<and> (\<forall>k \<in> set (keys a). deep_equal (obj_get a k) (obj_get b k)))"
| "deep_equal (JArr xs) (JArr ys) =
     (set (keys (own_props (JArr xs))) = set (keys (own_props (JArr ys)))
      \<and> (\<forall>k \<in> set (keys (own_props (JArr xs))).
            deep_equal (obj_get (own_props (JArr xs)) k) (obj_get (own_props (JArr ys)) k)))"
| "deep_equal v w = (v = w)"
  by pat_completeness auto
termination
proof (relation "measure (\<lambda>(v, w). size v)")
  show "wf (measure (\<lambda>(v, w). size v))" by simp
next
  fix a b :: obj and k :: string
  assume "k \<in> set (keys a)"
  then show "((obj_get a k, obj_get b k), JObj a, JObj b) \<in> measure (\<lambda>(v, w). size v)"
    using size_obj_get [of a k] by (simp add: has_own_def)
next
  fix xs ys :: "jsval list" and k :: string
  assume "k \<in> set (keys (own_props (JArr xs)))"
  then show "((obj_get (own_props (JArr xs)) k, obj_get (own_props (JArr ys)) k), JArr xs, JArr ys)
      \<in> measure (\<lambda>(v, w). size v)"
    using size_own_value [of "JArr xs" k]
    by (simp add: own_value_def has_own_def del: own_props.simps)
qed

text \<open>Two values are both plain objects or both arrays.\<close>

fun both_objects_or_arrays :: "jsval \<Rightarrow> jsval \<Rightarrow> bool" where
  "both_objects_or_arrays (JObj a) (JObj b) = True"
| "both_objects_or_arrays (JArr xs) (JArr ys) = True"
| "both_objects_or_arrays v w = False"

text \<open>The two states of a record agree in kind: wherever both have an object (a plain
  object, an array or a date) under the same keys, the two are of the same kind, both
  plain objects, both arrays or both dates. This is so when every field keeps its
  type.\<close>

function compatible :: "jsval \<Rightarrow> jsval \<Rightarrow> bool" where
  "compatible v w =
     (if isObject v \<and> isObject w
      then (both_objects_or_arrays v w \<or> (isDate v \<and> isDate w))
           \<and> (\<forall>k \<in> set (keys (own_props w)).
                 has_own (own_props v) k
                 \<longrightarrow> compatible (obj_get (own_props v) k) (obj_get (own_props w) k))
      else True)"
  by pat_completeness auto
termination
proof (relation "measure (\<lambda>(v, w). size w)")
  show "wf (measure (\<lambda>(v, w). size w))" by simp
next
  fix v w :: jsval and k :: string
  assume "isObject v \<and> isObject w" and "k \<in> set (keys (own_props w))"
  then show "((obj_get (own_props v) k, obj_get (own_props w) k), v, w)
      \<in> measure (\<lambda>(v, w). size w)"
    using size_own_value [of w k] by (simp add: own_value_def has_own_def)
qed

declare compatible.simps [simp del]

text \<open>The test of the diff's inner loop that leaves a key out of the result.\<close>

definition skipped :: "loose_equality \<Rightarrow> jsval \<Rightarrow> jsval \<Rightarrow> bool" where
  "skipped looseEquals l r =
     (isEmptyObject (deepDiff looseEquals l r) \<and> \<not> isDate (deepDiff looseEquals l r)
      \<and> (isEmptyObject l \<or> \<not> isEmptyObject r))"

text \<open>The entry that a diff has for a key \<open>k\<close>, if it has one, for the properties of
  the incoming and of the previous value: a key of the previous value maps to its
  previous value when the incoming value lacks the key or has another value for it (to
  the diff of the two values when both are plain objects or both are arrays); a key of
  the incoming value only maps to \<open>undefined\<close>; a key whose two values are
  structurally equal is left out.\<close>

definition recorded_field :: "loose_equality \<Rightarrow> obj \<Rightarrow> obj \<Rightarrow> string \<Rightarrow> jsval option" where
  "recorded_field looseEquals incoming previous k =
     (if has_own previous k
      then (if has_own incoming k
            then (if deep_equal (obj_get incoming k) (obj_get previous k) then None
                  else Some (if both_objects_or_arrays (obj_get incoming k) (obj_get previous k)
                             then deepDiff looseEquals (obj_get incoming k) (obj_get previous k)
                             else obj_get previous k))
            else Some (obj_get previous k))
      else if has_own incoming k then Some JUndefined else None)"

section \<open>Example data\<close>

text \<open>The record and the history of the specification's hydrate example, with times as
  numbers.\<close>

definition john :: obj where
  "john = [(''id'', JNum 1), (''firstName'', JStr ''John''), (''lastName'', JStr ''Wong'')]"

definition john_history :: "history list" where
  "john_history =
     [\<lparr>id' = JNum 1, origin = JNum 1, diff = JObj [(''firstName'', JStr ''Peter'')],
       historyDetails = JNull, createdAt = JDate 1\<rparr>,
      \<lparr>id' = JNum 2, origin = JNum 1,
       diff = JObj [(''firstName'', JStr ''John''), (''lastName'', JStr ''Stanbridge'')],
       historyDetails = JNull, createdAt = JDate 2\<rparr>]"

text \<open>A record that has an \<open>originId\<close> field of its own, and a history entry whose diff
  has keys named \<open>id\<close>, \<open>historyDetails\<close> and \<open>createdAt\<close>.\<close>

definition linked :: obj where
  "linked = [(''id'', JNum 1), (''originId'', JNum 7)]"

definition odd_entry :: history where
  "odd_entry =
     \<lparr>id' = JNum 10, origin = JNum 1,
      diff = JObj [(''id'', JNum 99), (''historyDetails'', JStr ''x''), (''createdAt'', JNum 0)],
      historyDetails = JNull, createdAt = JDate 5\<rparr>"

text \<open>A store with the example record at address 0, its two history rows at 1 and 2 and
  the array of the rows at 3.\<close>

definition john_store :: store where
  "john_store = [Record john, Row (john_history ! 0), Row (john_history ! 1), Array [1, 2]]"

text \<open>The lower-casing of the ASCII letters, which is what the built-in does to a string
  of ASCII characters in a locale without case rules of its own; two more classes, a
  second one with the name \<open>User\<close> and one with the name \<open>USER\<close>. A module in which
  \<open>setup\<close> was called with a \<open>getRepository\<close> that resolves every target to the
  repository of its name, and in which the class \<open>User\<close>, and no other, is registered;
  an empty database; the update of the specification's diff example, from
  \<open>{a: 1, b: 2}\<close> to \<open>{a: 1, b: 3}\<close>; and the same update on a record with identifier 7
  and with an annotation.\<close>

definition lower_char :: "char \<Rightarrow> char" where
  "lower_char c =
     (if 65 \<le> (of_char c :: nat) \<and> (of_char c :: nat) \<le> 90
      then char_of ((of_char c :: nat) + 32) else c)"

definition ascii_lower :: lower_casing where
  "ascii_lower s = map lower_char s"

definition user_class :: entity_class where
  "user_class = \<lparr>class_name = ''User'', class_ident = 0\<rparr>"

definition other_user_class :: entity_class where
  "other_user_class = \<lparr>class_name = ''User'', class_ident = 1\<rparr>"

definition upper_user_class :: entity_class where
  "upper_user_class = \<lparr>class_name = ''USER'', class_ident = 2\<rparr>"

definition by_name :: config where
  "by_name =
     \<lparr>getRepository = (\<lambda>t. case t of
         TargetName n \<Rightarrow> Inr (Repository n)
       | TargetClass (MyHistoryEntity n orig) \<Rightarrow> Inr (Repository n))\<rparr>"

definition user_module :: history_module where
  "user_module = setup_module by_name (trackHistory ascii_lower user_class initial_module)"

definition user_subscriber :: entity_subscriber where
  "user_subscriber = MyEntitySubscriber user_class ''user_history''"

definition empty_db :: database where
  "empty_db = \<lparr>rows = [], clock = 1000, available = True\<rparr>"

definition claim_update :: update_event where
  "claim_update =
     \<lparr>event_entity = Some [(''a'', JNum 1), (''b'', JNum 3)],
      databaseEntity = Some [(''a'', JNum 1), (''b'', JNum 2)],
      queryRunner_data = []\<rparr>"

definition annotated_update :: update_event where
  "annotated_update =
     \<lparr>event_entity = Some [(''id'', JNum 7), (''a'', JNum 1), (''b'', JNum 3)],
      databaseEntity = Some [(''id'', JNum 7), (''a'', JNum 1), (''b'', JNum 2)],
      queryRunner_data = [(''historyDetails'', JObj [(''editor'', JStr ''John Doe'')])]\<rparr>"

text \<open>An update whose incoming state has the fields of the previous state in another
  order, at the top and in a nested object; and an update event without an incoming
  state.\<close>

definition reordered_update :: update_event where
  "reordered_update =
     \<lparr>event_entity = Some [(''id'', JNum 7), (''at'', JDate 5), (''n'', JObj [(''x'', JNum 1), (''y'', JNull)])],
      databaseEntity = Some [(''n'', JObj [(''y'', JNull), (''x'', JNum 1)]), (''at'', JDate 5), (''id'', JNum 7)],
      queryRunner_data = []\<rparr>"

definition absent_update :: update_event where
  "absent_update =
     \<lparr>event_entity = None,
      databaseEntity = Some [(''id'', JNum 7), (''a'', JNum 1), (''b'', JNum 2)],
      queryRunner_data = []\<rparr>"

text \<open>An update that changes one element of an array and one field of a nested object;
  and the loose equality that never holds.\<close>

definition nested_update :: update_event where
  "nested_update =
     \<lparr>event_entity = Some [(''tags'', JArr [JNum 1, JNum 3]),
                           (''n'', JObj [(''x'', JNum 1), (''y'', JNum 3)])],
      databaseEntity = Some [(''tags'', JArr [JNum 1, JNum 2]),
                             (''n'', JObj [(''x'', JNum 1), (''y'', JNum 2)])],
      queryRunner_data = []\<rparr>"

definition never_equal :: loose_equality where
  "never_equal v w = False"

section \<open>Properties of objects\<close>

lemma map_of_obj_set: "map_of (obj_set k v ps) = (map_of ps)(k \<mapsto> v)"
  by (induction ps) (auto simp: fun_eq_iff)

lemma keys_obj_set: "set (keys (obj_set k v ps)) = insert k (set (keys ps))"
  by (induction ps) (auto simp: keys_def)

lemma distinct_obj_set: "distinct (keys ps) \<Longrightarrow> distinct (keys (obj_set k v ps))"
proof (induction ps)
  case Nil
  show ?case by (simp add: keys_def)
next
  case (Cons p ps)
  have "fst p \<noteq> k \<Longrightarrow> fst p \<notin> set (keys (obj_set k v ps))"
    using Cons.prems by (simp add: keys_obj_set) (simp add: keys_def)
  with Cons show ?case by (auto simp: keys_def)
qed

lemma distinct_fold_obj_set:
  "distinct (keys t) \<Longrightarrow> distinct (keys (fold (\<lambda>(k, v) acc. obj_set k v acc) s t))"
  by (induction s arbitrary: t) (auto simp: distinct_obj_set)

lemma distinct_object_assign: "distinct (keys t) \<Longrightarrow> distinct (keys (object_assign t s))"
  unfolding object_assign_def by (rule distinct_fold_obj_set)

lemma map_of_fold_obj_set:
  "distinct (keys s) \<Longrightarrow>
   map_of (fold (\<lambda>(k, v) acc. obj_set k v acc) s t) = map_of t ++ map_of s"
proof (induction s arbitrary: t)
  case Nil
  show ?case by simp
next
  case (Cons p s)
  obtain k v where p: "p = (k, v)" by (cases p)
  from Cons.prems have k: "map_of s k = None" and d: "distinct (keys s)"
    by (auto simp: p keys_def map_of_eq_None_iff)
  have "map_of (fold (\<lambda>(k, v) acc. obj_set k v acc) (p # s) t)
        = map_of (obj_set k v t) ++ map_of s"
    using Cons.IH [OF d, of "obj_set k v t"] by (simp add: p)
  also have "\<dots> = map_of t ++ map_of (p # s)"
    using k by (auto simp: p map_of_obj_set fun_eq_iff map_add_def split: option.splits)
  finally show ?case .
qed

lemma map_of_object_assign:
  "distinct (keys s) \<Longrightarrow> map_of (object_assign t s) = map_of t ++ map_of s"
  unfolding object_assign_def by (rule map_of_fold_obj_set)

section \<open>Hydrate is a fold\<close>

lemma distinct_next_pivot: "distinct (keys (next_pivot p h))"
  unfolding next_pivot_def
  by (intro distinct_obj_set distinct_object_assign) (simp add: keys_def)

lemma map_of_next_pivot:
  "distinct (keys p) \<Longrightarrow> distinct (keys (own_props (diff h))) \<Longrightarrow>
   map_of (next_pivot p h) = claimed_step (map_of p) h"
  unfolding next_pivot_def claimed_step_def
  by (simp add: map_of_obj_set map_of_object_assign)

lemma hydrate_map_claimed_fold:
  "distinct (keys p) \<Longrightarrow> list_all (\<lambda>h. distinct (keys (own_props (diff h)))) hs \<Longrightarrow>
   map map_of (hydrate_map p hs) = claimed_fold (map_of p) hs"
  by (induction hs arbitrary: p) (simp_all add: map_of_next_pivot distinct_next_pivot)

lemma length_hydrate_map: "length (hydrate_map p hs) = length hs"
  by (induction hs arbitrary: p) simp_all

lemma start_without_originId:
  assumes "\<not> has_own current ''originId''"
  shows "[''originId'' \<mapsto> obj_get current ''id''] ++ map_of current = claimed_start current"
proof
  fix k
  from assms have "map_of current ''originId'' = None"
    by (simp add: has_own_def keys_def map_of_eq_None_iff)
  then show "([''originId'' \<mapsto> obj_get current ''id''] ++ map_of current) k = claimed_start current k"
    by (cases "k = ''originId''") (simp_all add: claimed_start_def map_add_def split: option.splits)
qed

text \<open>
  Claim C2, as the code has it. For every record \<open>current\<close> and every list \<open>hs\<close> of
  history entries (objects with distinct keys), \<open>hydrate current hs\<close> has the length of
  \<open>hs\<close> and is, in the same order, the fold of the claim, except for its start: the
  pivot starts as the object \<open>{ originId: current.id }\<close> overlaid with the fields of
  \<open>current\<close>, so that an \<open>originId\<close> field of \<open>current\<close> itself is kept. When \<open>current\<close>
  has no field \<open>originId\<close>, that start is \<open>current\<close> augmented with \<open>originId\<close> equal to
  \<open>current.id\<close> and the result is the claimed fold. An empty history yields an empty
  output.
\<close>

theorem hydrate_is_fold:
  assumes "distinct (keys current)"
    and "list_all (\<lambda>h. distinct (keys (own_props (diff h)))) hs"
  shows "length (hydrate current hs) = length hs
    \<and> map map_of (hydrate current hs)
        = claimed_fold ([''originId'' \<mapsto> obj_get current ''id''] ++ map_of current) hs
    \<and> (has_own current ''originId''
        \<or> map map_of (hydrate current hs) = hydrate_claimed current hs)
    \<and> hydrate current [] = []"
proof -
  let ?start = "object_assign [(''originId'', obj_get current ''id'')] current"
  have d: "distinct (keys ?start)"
    by (rule distinct_object_assign) (simp add: keys_def)
  have s: "map_of ?start = [''originId'' \<mapsto> obj_get current ''id''] ++ map_of current"
    using assms(1) by (simp add: map_of_object_assign)
  have m: "map map_of (hydrate current hs)
        = claimed_fold ([''originId'' \<mapsto> obj_get current ''id''] ++ map_of current) hs"
    unfolding hydrate_def using hydrate_map_claimed_fold [OF d assms(2)] by (simp add: s)
  have c: "map map_of (hydrate current hs) = hydrate_claimed current hs"
    if "\<not> has_own current ''originId''"
    using m start_without_originId [OF that] by (simp add: hydrate_claimed_def)
  have l: "length (hydrate current hs) = length hs"
    by (simp add: hydrate_def length_hydrate_map)
  have e: "hydrate current [] = []"
    by (simp add: hydrate_def)
  from l m c e show ?thesis by blast
qed

theorem hydrate_is_fold_witness:
  "distinct (keys john)
   \<and> list_all (\<lambda>h. distinct (keys (own_props (diff h)))) john_history
   \<and> length (hydrate john john_history) = length john_history
   \<and> map map_of (hydrate john john_history) = hydrate_claimed john john_history"
proof -
  have 1: "distinct (keys john)" by code_simp
  have 2: "list_all (\<lambda>h. distinct (keys (own_props (diff h)))) john_history" by code_simp
  have 3: "\<not> has_own john ''originId''" by code_simp
  from hydrate_is_fold [OF 1 2] 1 2 3 show ?thesis by blast
qed

text \<open>The claim as it is stated fails for a record that has an \<open>originId\<close> field: the
  output keeps the record's own value 7, where the claimed fold has \<open>current.id\<close>,
  which is 1.\<close>

theorem hydrate_claimed_counterexample:
  "map_of (hd (hydrate linked [odd_entry])) ''originId'' = Some (JNum 7)
   \<and> hd (hydrate_claimed linked [odd_entry]) ''originId'' = Some (JNum 1)
   \<and> map map_of (hydrate linked [odd_entry]) \<noteq> hydrate_claimed linked [odd_entry]"
proof -
  have 1: "map_of (hd (hydrate linked [odd_entry])) ''originId'' = Some (JNum 7)"
    by code_simp
  have 2: "hd (hydrate_claimed linked [odd_entry]) ''originId'' = Some (JNum 1)"
    by (simp add: hydrate_claimed_def claimed_start_def claimed_step_def linked_def
        odd_entry_def obj_get_def)
  have "map map_of (hydrate linked [odd_entry]) \<noteq> hydrate_claimed linked [odd_entry]"
  proof
    assume "map map_of (hydrate linked [odd_entry]) = hydrate_claimed linked [odd_entry]"
    then have "hd (map map_of (hydrate linked [odd_entry])) ''originId''
        = hd (hydrate_claimed linked [odd_entry]) ''originId''"
      by simp
    moreover have "hd (map map_of (hydrate linked [odd_entry]))
        = map_of (hd (hydrate linked [odd_entry]))"
      by (simp add: hydrate_def)
    ultimately show False using 1 2 by simp
  qed
  with 1 2 show ?thesis by simp
qed

section \<open>The entry's own fields take precedence\<close>

lemma hydrate_map_nth:
  "i < length hs \<Longrightarrow>
     map_of (hydrate_map p hs ! i) ''id'' = Some (id' (hs ! i))
   \<and> map_of (hydrate_map p hs ! i) ''historyDetails'' = Some (historyDetails (hs ! i))
   \<and> map_of (hydrate_map p hs ! i) ''createdAt'' = Some (createdAt (hs ! i))"
proof (induction hs arbitrary: p i)
  case Nil
  then show ?case by simp
next
  case (Cons h hs)
  show ?case
  proof (cases i)
    case 0
    then show ?thesis by (simp add: next_pivot_def map_of_obj_set)
  next
    case (Suc j)
    with Cons.prems have "j < length hs" by simp
    from Cons.IH [OF this] Suc show ?thesis by simp
  qed
qed

text \<open>
  Claim C9. In every output element of \<open>hydrate\<close>, the fields \<open>id\<close>, \<open>historyDetails\<close>
  and \<open>createdAt\<close> are those of the history entry at the same position, whatever the
  entry's diff contains: the entry's own fields are written after its diff is spread.
\<close>

theorem hydrate_entry_fields:
  assumes "i < length hs"
  shows "map_of (hydrate current hs ! i) ''id'' = Some (id' (hs ! i))
    \<and> map_of (hydrate current hs ! i) ''historyDetails'' = Some (historyDetails (hs ! i))
    \<and> map_of (hydrate current hs ! i) ''createdAt'' = Some (createdAt (hs ! i))"
  unfolding hydrate_def using assms by (rule hydrate_map_nth)

text \<open>An entry whose diff has the keys \<open>id\<close>, \<open>historyDetails\<close> and \<open>createdAt\<close>.\<close>

theorem hydrate_entry_fields_witness:
  "0 < length [odd_entry]
   \<and> map_of (own_props (diff odd_entry)) ''id'' = Some (JNum 99)
   \<and> map_of (own_props (diff odd_entry)) ''historyDetails'' = Some (JStr ''x'')
   \<and> map_of (own_props (diff odd_entry)) ''createdAt'' = Some (JNum 0)
   \<and> map_of (hydrate linked [odd_entry] ! 0) ''id'' = Some (JNum 10)
   \<and> map_of (hydrate linked [odd_entry] ! 0) ''historyDetails'' = Some JNull
   \<and> map_of (hydrate linked [odd_entry] ! 0) ''createdAt'' = Some (JDate 5)"
proof -
  have 1: "0 < length [odd_entry]" by simp
  have 2: "id' odd_entry = JNum 10" "historyDetails odd_entry = JNull"
    "createdAt odd_entry = JDate 5" "diff odd_entry =
      JObj [(''id'', JNum 99), (''historyDetails'', JStr ''x''), (''createdAt'', JNum 0)]"
    by (simp_all add: odd_entry_def)
  from hydrate_entry_fields [OF 1, of linked] show ?thesis by (simp add: 2)
qed

section \<open>Hydrate writes to no object that it is given\<close>

lemma read_record_append: "read_record s r = Some p \<Longrightarrow> read_record (s @ t) r = Some p"
  by (auto simp: read_record_def lookup_def nth_append split: if_splits)

lemma read_row_append: "read_row s r = Some h \<Longrightarrow> read_row (s @ t) r = Some h"
  by (auto simp: read_row_def lookup_def nth_append split: if_splits)

lemma those_map_append:
  assumes "\<And>r x. f s r = Some x \<Longrightarrow> f (s @ t) r = Some x"
  shows "those (map (f s) rs) = Some xs \<Longrightarrow> those (map (f (s @ t)) rs) = Some xs"
proof (induction rs arbitrary: xs)
  case Nil
  then show ?case by simp
next
  case (Cons r rs)
  then show ?case by (auto simp: assms split: option.splits)
qed

lemma read_records_append:
  "read_records s r = Some ps \<Longrightarrow> read_records (s @ t) r = Some ps"
  unfolding read_records_def
  by (auto simp: lookup_def nth_append those_map_append [of read_record, OF read_record_append]
      split: if_splits option.splits cell.splits)

lemma read_rows_append:
  "read_rows s r = Some hs \<Longrightarrow> read_rows (s @ t) r = Some hs"
  unfolding read_rows_def
  by (auto simp: lookup_def nth_append those_map_append [of read_row, OF read_row_append]
      split: if_splits option.splits cell.splits)

text \<open>The callback only appends to the store, and the objects it returns read as the
  value-level \<open>hydrate_map\<close> of the pivot and the rows.\<close>

lemma map_callback_run:
  "read_record s pivot = Some p \<Longrightarrow> those (map (read_row s) rs) = Some hs \<Longrightarrow>
   \<exists>out new. map_callback pivot rs s = Inr (out, s @ new)
     \<and> those (map (read_record (s @ new)) out) = Some (hydrate_map p hs)"
proof (induction rs arbitrary: s pivot p hs)
  case Nil
  then show ?case by simp
next
  case (Cons r rs)
  from Cons.prems(2) obtain h hs' where h: "read_row s r = Some h"
    and hs': "those (map (read_row s) rs) = Some hs'" and hs: "hs = h # hs'"
    by (auto split: option.splits)
  let ?q = "next_pivot p h"
  let ?s = "s @ [Record ?q]"
  have q: "read_record ?s (length s) = Some ?q"
    by (simp add: read_record_def lookup_def)
  have rows: "those (map (read_row ?s) rs) = Some hs'"
    by (rule those_map_append [of read_row, OF read_row_append hs'])
  from Cons.IH [OF q rows] obtain out new where
    run: "map_callback (length s) rs ?s = Inr (out, ?s @ new)"
    and res: "those (map (read_record (?s @ new)) out) = Some (hydrate_map ?q hs')"
    by blast
  have l: "lookup s r = Some (Row h)" "lookup s pivot = Some (Record p)"
    using h Cons.prems(1)
    by (auto simp: read_row_def read_record_def split: option.splits cell.splits)
  have step: "map_callback pivot (r # rs) s = Inr (length s # out, s @ (Record ?q # new))"
    using run by (simp add: l alloc_def)
  have "read_record (?s @ new) (length s) = Some ?q"
    by (rule read_record_append [OF q])
  with res have "those (map (read_record (s @ (Record ?q # new))) (length s # out))
      = Some (hydrate_map p hs)"
    by (simp add: hs)
  with step show ?case by blast
qed

lemma hydrate_store_run:
  assumes "read_record s current = Some cur" and "read_rows s hist = Some hs"
  shows "\<exists>out new. hydrate_store current hist s = Inr (out, s @ new)
     \<and> read_records (s @ new) out = Some (hydrate cur hs)"
proof -
  from assms obtain rs where
    l: "lookup s current = Some (Record cur)" "lookup s hist = Some (Array rs)"
    and rows: "those (map (read_row s) rs) = Some hs"
    by (auto simp: read_record_def read_rows_def split: option.splits cell.splits)
  let ?p = "object_assign [(''originId'', obj_get cur ''id'')] cur"
  let ?s = "s @ [Record ?p]"
  have s2: "assign_in_store (length s) cur (s @ [Record [(''originId'', obj_get cur ''id'')]]) = ?s"
    by (simp add: assign_in_store_def lookup_def)
  have p: "read_record ?s (length s) = Some ?p"
    by (simp add: read_record_def lookup_def)
  have rows': "those (map (read_row ?s) rs) = Some hs"
    by (rule those_map_append [of read_row, OF read_row_append rows])
  from map_callback_run [OF p rows'] obtain out new where
    run: "map_callback (length s) rs ?s = Inr (out, ?s @ new)"
    and res: "those (map (read_record (?s @ new)) out) = Some (hydrate_map ?p hs)"
    by blast
  let ?new = "Record ?p # new @ [Array out]"
  have "hydrate_store current hist s = Inr (Suc (length s + length new), s @ ?new)"
    using run by (simp add: hydrate_store_def l alloc_def s2)
  moreover have "read_records (s @ ?new) (Suc (length s + length new)) = Some (hydrate cur hs)"
  proof -
    have "those (map (read_record ((?s @ new) @ [Array out])) out) = Some (hydrate_map ?p hs)"
      by (rule those_map_append [of read_record, OF read_record_append res])
    then show ?thesis
      by (simp add: read_records_def lookup_def nth_append hydrate_def)
  qed
  ultimately show ?thesis by blast
qed

text \<open>
  Claim C6. Take any store in which \<open>current\<close> refers to a record \<open>cur\<close> and \<open>hist\<close> to
  an array of history rows \<open>hs\<close>. A call of \<open>hydrate\<close> returns, and a second call with
  the same arguments returns too. Each call leaves every cell that the store had before
  it as it was and only adds cells (the store after a call is the store before it,
  extended), so \<open>current\<close>, the array, its rows and every other object are unmodified.
  Both calls return arrays that read as the same list of objects, the value
  \<open>hydrate cur hs\<close>, which depends on the record and the rows only; and the second call
  does not disturb what the first one returned.
\<close>

theorem hydrate_store_pure:
  assumes "read_record s current = Some cur" and "read_rows s hist = Some hs"
  shows "\<exists>out1 new1 out2 new2.
      hydrate_store current hist s = Inr (out1, s @ new1)
    \<and> hydrate_store current hist (s @ new1) = Inr (out2, (s @ new1) @ new2)
    \<and> read_records (s @ new1) out1 = Some (hydrate cur hs)
    \<and> read_records ((s @ new1) @ new2) out2 = Some (hydrate cur hs)
    \<and> read_records ((s @ new1) @ new2) out1 = Some (hydrate cur hs)
    \<and> read_record ((s @ new1) @ new2) current = Some cur
    \<and> read_rows ((s @ new1) @ new2) hist = Some hs"
proof -
  from hydrate_store_run [OF assms] obtain out1 new1 where
    1: "hydrate_store current hist s = Inr (out1, s @ new1)"
       "read_records (s @ new1) out1 = Some (hydrate cur hs)" by blast
  have a: "read_record (s @ new1) current = Some cur" "read_rows (s @ new1) hist = Some hs"
    using assms by (auto intro: read_record_append read_rows_append)
  from hydrate_store_run [OF a] obtain out2 new2 where
    2: "hydrate_store current hist (s @ new1) = Inr (out2, (s @ new1) @ new2)"
       "read_records ((s @ new1) @ new2) out2 = Some (hydrate cur hs)" by blast
  have 3: "read_records ((s @ new1) @ new2) out1 = Some (hydrate cur hs)"
    by (rule read_records_append [OF 1(2)])
  have 4: "read_record ((s @ new1) @ new2) current = Some cur"
    by (rule read_record_append [OF a(1)])
  have 5: "read_rows ((s @ new1) @ new2) hist = Some hs"
    by (rule read_rows_append [OF a(2)])
  from 1 2 3 4 5 show ?thesis by blast
qed

theorem hydrate_store_pure_witness:
  "read_record john_store 0 = Some john
   \<and> read_rows john_store 3 = Some john_history
   \<and> (\<exists>out1 new1 out2 new2.
      hydrate_store 0 3 john_store = Inr (out1, john_store @ new1)
    \<and> hydrate_store 0 3 (john_store @ new1) = Inr (out2, (john_store @ new1) @ new2)
    \<and> read_records (john_store @ new1) out1 = Some (hydrate john john_history)
    \<and> read_records ((john_store @ new1) @ new2) out2 = Some (hydrate john john_history)
    \<and> read_records ((john_store @ new1) @ new2) out1 = Some (hydrate john john_history)
    \<and> read_record ((john_store @ new1) @ new2) 0 = Some john
    \<and> read_rows ((john_store @ new1) @ new2) 3 = Some john_history)"
proof -
  have 1: "read_record john_store 0 = Some john" by code_simp
  have 2: "read_rows john_store 3 = Some john_history" by code_simp
  from hydrate_store_pure [OF 1 2] 1 2 show ?thesis by blast
qed

section \<open>The registry\<close>



lemma find_name_None:
  "n \<notin> set (map name es) \<Longrightarrow> find (\<lambda>e. name e = n) es = None"
  by (induction es) auto


text \<open>Each registration adds an entry under the lower-cased name of the class.\<close>

lemma names_after_trackHistory:
  "map name (entries (fold (trackHistory lower) cs m))
   = map name (entries m) @ map (\<lambda>c. lower (class_name c)) cs"
  by (induction cs arbitrary: m)
     (simp_all add: trackHistory_def createHistoryEntityAndSubscriber_def Let_def)

text \<open>
  Claim C5, as the code has it. The registry knows a type by the lower-cased name of its
  class only, and a lookup computes the lower-cased name of its argument: of the
  class's name for a type reference, of the string for a name, of \<open>[object Object]\<close>
  for any other object. When no registered entry has that name, every call of
  \<open>getHistoryRepository\<close> throws the error for an unregistered entity, whatever the
  configuration is; it returns no repository and, reading the module only, changes
  nothing. A type that was never registered but whose name has the lower-case form of a
  registered type's name is not in this case: the lookup returns the registered type's
  repository for it.
\<close>

theorem unregistered_lookup_fails:
  assumes "lookup_name lower entityClass \<notin> set (map name (entries m))"
  shows "getHistoryRepository lower entityClass m = Inl NotRegistered"
  using find_name_None [OF assms] by (simp add: getHistoryRepository_def)

theorem unregistered_lookup_fails_witness:
  "lookup_name ascii_lower (ArgName ''Order'') \<notin> set (map name (entries user_module))
   \<and> getHistoryRepository ascii_lower (ArgName ''Order'') user_module = Inl NotRegistered
   \<and> lookup_name ascii_lower (ArgClass \<lparr>class_name = ''Order'', class_ident = 1\<rparr>)
       \<notin> set (map name (entries user_module))
   \<and> getHistoryRepository ascii_lower (ArgClass \<lparr>class_name = ''Order'', class_ident = 1\<rparr>)
        user_module
       = Inl NotRegistered"
proof -
  have 1: "lookup_name ascii_lower (ArgName ''Order'') \<notin> set (map name (entries user_module))"
    by code_simp
  have 2: "lookup_name ascii_lower (ArgClass \<lparr>class_name = ''Order'', class_ident = 1\<rparr>)
       \<notin> set (map name (entries user_module))"
    by code_simp
  from unregistered_lookup_fails [OF 1] unregistered_lookup_fails [OF 2] 1 2
  show ?thesis by blast
qed

text \<open>The claim as it is stated fails for a type that was never registered and has the
  name of a registered one, in the same or in another letter case. In the module in
  which only the class \<open>User\<close> with identity 0 is registered, neither the second class
  \<open>User\<close> nor the class \<open>USER\<close> is the class of any subscriber, and the lookup with
  either of them, by type reference or by name, returns the repository of the
  registered class.\<close>

theorem unregistered_lookup_counterexample:
  "map (\<lambda>e. listenTo (subscriber e)) (entries user_module) = [user_class]
   \<and> other_user_class \<noteq> user_class
   \<and> upper_user_class \<noteq> user_class
   \<and> getHistoryRepository ascii_lower (ArgClass other_user_class) user_module
       = Inr (Repository ''user_history'')
   \<and> getHistoryRepository ascii_lower (ArgClass upper_user_class) user_module
       = Inr (Repository ''user_history'')
   \<and> getHistoryRepository ascii_lower (ArgName (class_name upper_user_class)) user_module
       = Inr (Repository ''user_history'')"
proof -
  have 1: "map (\<lambda>e. listenTo (subscriber e)) (entries user_module) = [user_class]"
    by code_simp
  have 2: "other_user_class \<noteq> user_class" "upper_user_class \<noteq> user_class"
    by (simp_all add: other_user_class_def upper_user_class_def user_class_def)
  have 3: "getHistoryRepository ascii_lower (ArgClass other_user_class) user_module
       = Inr (Repository ''user_history'')"
    by code_simp
  have 4: "getHistoryRepository ascii_lower (ArgClass upper_user_class) user_module
       = Inr (Repository ''user_history'')"
    by code_simp
  have 5: "getHistoryRepository ascii_lower (ArgName (class_name upper_user_class)) user_module
       = Inr (Repository ''user_history'')"
    by code_simp
  from 1 2 3 4 5 show ?thesis by blast
qed



text \<open>
  Claim C10. Applying the decorator of \<open>TrackHistory()\<close> to a class and calling
  \<open>trackHistory\<close> with it leave the module in the same state: the registry with the
  entry of \<open>createHistoryEntityAndSubscriber\<close> for the class appended. So
  \<open>getEntities\<close>, \<open>getSubscribers\<close> and \<open>getHistoryRepository\<close> give the same results
  after either; the decorator also returns its target.
\<close>

theorem TrackHistory_trackHistory:
  "TrackHistory lower c m = (c, trackHistory lower c m)
   \<and> entries (trackHistory lower c m) = entries m @ [createHistoryEntityAndSubscriber lower c]
   \<and> config (trackHistory lower c m) = config m
   \<and> getEntities (snd (TrackHistory lower c m)) = getEntities (trackHistory lower c m)
   \<and> getSubscribers (snd (TrackHistory lower c m)) = getSubscribers (trackHistory lower c m)
   \<and> getHistoryRepository lower a (snd (TrackHistory lower c m))
       = getHistoryRepository lower a (trackHistory lower c m)"
  by (simp add: TrackHistory_def trackHistory_def Let_def)

section \<open>What the diff contains\<close>

lemma map_of_fold_skip:
  "map_of (fold (\<lambda>key acc. if skip key then acc else obj_set key (g key) acc) ks acc) k
   = (if k \<in> set ks \<and> \<not> skip k then Some (g k) else map_of acc k)"
  by (induction ks arbitrary: acc) (auto simp: map_of_obj_set)

lemma deepDiff_containers:
  assumes "isObject l" "isObject r" "\<not> isDate l" "\<not> isDate r"
  shows "deepDiff eq l r =
     JObj (fold (\<lambda>key acc.
             if hasOwnProperty l key \<and> skipped eq (own_value l key) (own_value r key) then acc
             else obj_set key
                    (if hasOwnProperty l key then deepDiff eq (own_value l key) (own_value r key)
                     else own_value r key) acc)
           (keys (own_props r))
           (fold (\<lambda>key acc. if hasOwnProperty r key then acc else obj_set key JUndefined acc)
              (keys (own_props l)) []))"
proof -
  have 1: "(\<lambda>key acc. if \<not> hasOwnProperty r key then obj_set key JUndefined acc else acc)
         = (\<lambda>key acc. if hasOwnProperty r key then acc else obj_set key JUndefined acc)"
    by (auto simp: fun_eq_iff)
  have 2: "(\<lambda>key acc.
                 if \<not> hasOwnProperty l key
                 then obj_set key (own_value r key) acc
                 else
                   let difference = deepDiff eq (own_value l key) (own_value r key)
                   in if isEmptyObject difference \<and> \<not> isDate difference
                         \<and> (isEmptyObject (own_value l key)
                              \<or> \<not> isEmptyObject (own_value r key))
                      then acc
                      else obj_set key difference acc)
       = (\<lambda>key acc.
             if hasOwnProperty l key \<and> skipped eq (own_value l key) (own_value r key) then acc
             else obj_set key
                    (if hasOwnProperty l key then deepDiff eq (own_value l key) (own_value r key)
                     else own_value r key) acc)"
    by (auto simp: fun_eq_iff skipped_def Let_def)
  from assms have s: "\<not> strict_equal l r" by (cases l) simp_all
  show ?thesis
    by (subst deepDiff.simps, unfold 1 2) (simp add: Let_def assms s)
qed

lemma deepDiff_not_objects:
  "\<not> isObject l \<or> \<not> isObject r \<Longrightarrow> deepDiff eq l r = (if strict_equal l r then JObj [] else r)"
  by (subst deepDiff.simps) simp

lemma deepDiff_dates:
  "deepDiff eq (JDate a) (JDate b) = (if a = b then JObj [] else JDate b)"
  by (subst deepDiff.simps) (simp add: Let_def)

lemma map_of_deepDiff_containers:
  assumes "isObject l" "isObject r" "\<not> isDate l" "\<not> isDate r"
  shows "map_of (own_props (deepDiff eq l r)) k =
     (if k \<in> set (keys (own_props r))
      then (if hasOwnProperty l k
            then (if skipped eq (own_value l k) (own_value r k) then None
                  else Some (deepDiff eq (own_value l k) (own_value r k)))
            else Some (own_value r k))
      else if k \<in> set (keys (own_props l)) \<and> \<not> hasOwnProperty r k then Some JUndefined else None)"
proof -
  have "k \<in> set (keys (own_props r)) \<Longrightarrow> hasOwnProperty r k"
    by (simp add: hasOwnProperty_def has_own_def)
  then show ?thesis
    by (auto simp: deepDiff_containers [OF assms] map_of_fold_skip)
qed

text \<open>An index is a string of digits, so it is not the key \<open>length\<close>.\<close>

lemma string_of_nat_digits: "c \<in> set (string_of_nat n) \<Longrightarrow> (of_char c :: nat) < 58"
proof (induction n rule: string_of_nat.induct)
  case (1 n)
  show ?case
  proof (cases "n < 10")
    case True
    with "1.prems" show ?thesis by (subst (asm) string_of_nat.simps) auto
  next
    case False
    from "1.prems" have "c \<in> set (string_of_nat (n div 10)) \<or> c = char_of (48 + n mod 10)"
      by (subst (asm) string_of_nat.simps) (auto simp: False)
    then show ?thesis
    proof
      assume "c \<in> set (string_of_nat (n div 10))"
      with "1.IH" False show ?thesis by simp
    next
      assume c: "c = char_of (48 + n mod 10)"
      have "(48 + n mod 10) mod 256 = 48 + n mod 10" by simp
      then show ?thesis by (simp add: c)
    qed
  qed
qed

lemma length_not_index: "string_of_nat n \<noteq> ''length''"
proof
  assume "string_of_nat n = ''length''"
  then have "CHR ''l'' \<in> set (string_of_nat n)" by simp
  from string_of_nat_digits [OF this] show False by simp
qed

lemma length_not_key: "''length'' \<notin> set (keys (own_props (JArr xs)))"
proof
  assume "''length'' \<in> set (keys (own_props (JArr xs)))"
  then obtain n where "''length'' = string_of_nat n"
    by (auto simp: keys_def)
  with length_not_index [of n] show False by simp
qed

lemma own_value_own: "has_own (own_props v) k \<Longrightarrow> own_value v k = obj_get (own_props v) k"
  by (simp add: own_value_def)

lemma own_value_obj: "own_value (JObj a) k = obj_get a k"
  by (simp add: own_value_def has_own_def keys_def obj_get_def map_of_eq_None_iff [THEN iffD2])

lemma hasOwnProperty_obj: "hasOwnProperty (JObj a) k = has_own a k"
  by (simp add: hasOwnProperty_def)

lemma hasOwnProperty_arr:
  "k \<in> set (keys (own_props (JArr ys))) \<Longrightarrow>
   hasOwnProperty (JArr xs) k = has_own (own_props (JArr xs)) k"
  using length_not_key [of ys] by (auto simp: hasOwnProperty_def simp del: own_props.simps)

lemma hasOwnProperty_both:
  assumes "both_objects_or_arrays l r"
    and "k \<in> set (keys (own_props l)) \<or> k \<in> set (keys (own_props r))"
  shows "hasOwnProperty l k = has_own (own_props l) k
    \<and> hasOwnProperty r k = has_own (own_props r) k"
proof -
  from assms(1) consider a b where "l = JObj a" "r = JObj b"
    | xs ys where "l = JArr xs" "r = JArr ys"
    by (cases l; cases r) simp_all
  then show ?thesis
  proof cases
    case 1
    then show ?thesis by (simp add: hasOwnProperty_obj)
  next
    case 2
    from assms(2) have "k \<noteq> ''length''"
      using length_not_key [of xs] length_not_key [of ys] unfolding 2 by blast
    then show ?thesis
      by (simp add: 2 hasOwnProperty_def del: own_props.simps)
  qed
qed

lemma both_isObject:
  "both_objects_or_arrays l r \<Longrightarrow> isObject l \<and> isObject r \<and> \<not> isDate l \<and> \<not> isDate r"
  by (cases l; cases r) simp_all

text \<open>The diff of two plain objects, or of two arrays, key by key.\<close>

lemma map_of_deepDiff_both:
  assumes "both_objects_or_arrays l r"
  shows "map_of (own_props (deepDiff eq l r)) k =
     (if has_own (own_props r) k
      then (if has_own (own_props l) k
            then (if skipped eq (obj_get (own_props l) k) (obj_get (own_props r) k) then None
                  else Some (deepDiff eq (obj_get (own_props l) k) (obj_get (own_props r) k)))
            else Some (obj_get (own_props r) k))
      else if has_own (own_props l) k then Some JUndefined else None)"
proof -
  note o = both_isObject [OF assms]
  have m: "map_of (own_props (deepDiff eq l r)) k =
     (if k \<in> set (keys (own_props r))
      then (if hasOwnProperty l k
            then (if skipped eq (own_value l k) (own_value r k) then None
                  else Some (deepDiff eq (own_value l k) (own_value r k)))
            else Some (own_value r k))
      else if k \<in> set (keys (own_props l)) \<and> \<not> hasOwnProperty r k then Some JUndefined else None)"
    using o by (intro map_of_deepDiff_containers) simp_all
  show ?thesis
  proof (cases "k \<in> set (keys (own_props l)) \<or> k \<in> set (keys (own_props r))")
    case True
    from hasOwnProperty_both [OF assms True]
    have h: "hasOwnProperty l k = has_own (own_props l) k"
      "hasOwnProperty r k = has_own (own_props r) k"
      by simp_all
    show ?thesis
      unfolding m h by (auto simp: has_own_def own_value_own)
  next
    case False
    then show ?thesis unfolding m by (simp add: has_own_def)
  qed
qed

lemma empty_iff_map_of: "(ps = []) = (\<forall>k. map_of ps k = None)"
  by (cases ps) (auto simp: fun_eq_iff)

lemma deepDiff_both_empty:
  assumes "both_objects_or_arrays l r"
  shows "(own_props (deepDiff eq l r) = []) =
     (set (keys (own_props l)) = set (keys (own_props r))
      \<and> (\<forall>k \<in> set (keys (own_props l)).
            skipped eq (obj_get (own_props l) k) (obj_get (own_props r) k)))"
  unfolding empty_iff_map_of map_of_deepDiff_both [OF assms]
  by (auto simp: has_own_def)

lemma deep_equal_both:
  "both_objects_or_arrays l r \<Longrightarrow>
   deep_equal l r =
     (set (keys (own_props l)) = set (keys (own_props r))
      \<and> (\<forall>k \<in> set (keys (own_props l)).
            deep_equal (obj_get (own_props l) k) (obj_get (own_props r) k)))"
  by (cases l; cases r) (simp_all del: own_props.simps, simp)

lemma deep_equal_other: "\<not> both_objects_or_arrays l r \<Longrightarrow> deep_equal l r = (l = r)"
  by (cases l; cases r) simp_all

lemma compatible_both:
  "both_objects_or_arrays l r \<Longrightarrow> compatible l r \<Longrightarrow>
   has_own (own_props l) k \<Longrightarrow> has_own (own_props r) k \<Longrightarrow>
   compatible (obj_get (own_props l) k) (obj_get (own_props r) k)"
  by (subst (asm) compatible.simps) (auto simp: has_own_def dest: both_isObject)

lemma deepDiff_both_obj:
  "both_objects_or_arrays l r \<Longrightarrow> \<exists>ps. deepDiff eq l r = JObj ps"
  using deepDiff_containers [of l r eq] by (auto dest: both_isObject)

lemma isEmptyObject_both:
  "both_objects_or_arrays l r \<Longrightarrow>
   isEmptyObject l = (own_props l = []) \<and> isEmptyObject r = (own_props r = [])"
  by (cases l; cases r) (simp_all add: isEmptyObject_def keys_def del: own_props.simps)

text \<open>For states that agree in kind, the loop leaves a key out exactly when its two values
  are structurally equal.\<close>

lemma skipped_deep_equal: "compatible l r \<Longrightarrow> skipped eq l r = deep_equal l r"
proof (induction "size r" arbitrary: l r rule: less_induct)
  case less
  show ?case
  proof (cases "both_objects_or_arrays l r")
    case True
    let ?a = "own_props l" and ?b = "own_props r"
    note o = both_isObject [OF True]
    have ih: "skipped eq (obj_get ?a k) (obj_get ?b k) = deep_equal (obj_get ?a k) (obj_get ?b k)"
      if "k \<in> set (keys ?b)" "k \<in> set (keys ?a)" for k
    proof -
      from that have h: "has_own ?a k" "has_own ?b k" by (simp_all add: has_own_def)
      from size_own_value [of r k] o that(1) have "size (obj_get ?b k) < size r"
        by (simp add: own_value_own h)
      moreover from compatible_both [OF True less.prems h]
      have "compatible (obj_get ?a k) (obj_get ?b k)" .
      ultimately show ?thesis by (rule less.hyps)
    qed
    from deepDiff_both_obj [OF True] obtain ps where ps: "deepDiff eq l r = JObj ps" ..
    have e: "(ps = []) = (set (keys ?a) = set (keys ?b)
        \<and> (\<forall>k \<in> set (keys ?a). skipped eq (obj_get ?a k) (obj_get ?b k)))"
      using deepDiff_both_empty [OF True, of eq] by (simp add: ps)
    from isEmptyObject_both [OF True]
    have "skipped eq l r = (ps = [] \<and> (?a = [] \<or> ?b \<noteq> []))"
      by (simp add: skipped_def ps isEmptyObject_def keys_def)
    also have "\<dots> = (set (keys ?a) = set (keys ?b)
        \<and> (\<forall>k \<in> set (keys ?a). skipped eq (obj_get ?a k) (obj_get ?b k)))"
      unfolding e by (auto simp: keys_def)
    also have "\<dots> = (set (keys ?a) = set (keys ?b)
        \<and> (\<forall>k \<in> set (keys ?a). deep_equal (obj_get ?a k) (obj_get ?b k)))"
      using ih by auto
    also have "\<dots> = deep_equal l r"
      by (rule deep_equal_both [OF True, symmetric])
    finally show ?thesis .
  next
    case False
    note d = deep_equal_other [OF False]
    show ?thesis
    proof (cases "isObject l \<and> isObject r")
      case True
      with False less.prems have "isDate l \<and> isDate r"
        by (subst (asm) compatible.simps) simp
      then obtain a b where "l = JDate a" "r = JDate b"
        by (cases l; cases r) simp_all
      then show ?thesis
        by (simp add: skipped_def deepDiff_dates isEmptyObject_def keys_def)
    next
      case False
      then show ?thesis unfolding d
        by (cases l; cases r)
           (auto simp: skipped_def deepDiff_not_objects isEmptyObject_def keys_def)
    qed
  qed
qed

lemma deep_equal_refl: "deep_equal v v"
proof -
  have "v = w \<longrightarrow> deep_equal v w" for w
    by (induction v w rule: deep_equal.induct) (auto simp del: own_props.simps)
  then show ?thesis by simp
qed

lemma deep_equal_compatible: "deep_equal v w \<Longrightarrow> compatible v w"
proof (induction "size w" arbitrary: v w rule: less_induct)
  case less
  show ?case
  proof (cases "both_objects_or_arrays v w")
    case True
    let ?a = "own_props v" and ?b = "own_props w"
    note o = both_isObject [OF True]
    from less.prems have e: "set (keys ?a) = set (keys ?b)"
      "\<And>k. k \<in> set (keys ?a) \<Longrightarrow> deep_equal (obj_get ?a k) (obj_get ?b k)"
      unfolding deep_equal_both [OF True] by blast+
    have "compatible (obj_get ?a k) (obj_get ?b k)" if "k \<in> set (keys ?b)" for k
    proof -
      from that e(1) have "k \<in> set (keys ?a)" by simp
      from size_own_value [of w k] o that have "size (obj_get ?b k) < size w"
        by (simp add: own_value_own has_own_def)
      then show ?thesis using e(2) [OF \<open>k \<in> set (keys ?a)\<close>] by (rule less.hyps)
    qed
    with True o show ?thesis
      by (subst compatible.simps) simp
  next
    case False
    with less.prems have "v = w" by (simp add: deep_equal_other)
    with False show ?thesis
      by (subst compatible.simps) (cases w; simp add: keys_def)
  qed
qed

lemma isEmptyObj_JObj: "isEmptyObj (JObj ps) = (ps = [])"
  by (simp add: isEmptyObj_def keys_def)

lemma deepDiff_obj_obj: "\<exists>ps. deepDiff eq (JObj a) (JObj b) = JObj ps"
  by (rule deepDiff_both_obj) simp

lemma isEmptyObj_deepDiff:
  "isEmptyObj (deepDiff eq (JObj a) (JObj b)) = (own_props (deepDiff eq (JObj a) (JObj b)) = [])"
  using deepDiff_obj_obj [of eq a b] by (auto simp: isEmptyObj_JObj)

lemma deep_equal_empty_diff:
  assumes "deep_equal l r" and "both_objects_or_arrays l r"
  shows "deepDiff eq l r = JObj []"
proof -
  from assms(1) have "skipped eq l r"
    by (simp add: skipped_deep_equal [OF deep_equal_compatible])
  moreover from deepDiff_both_obj [OF assms(2)] obtain ps where "deepDiff eq l r = JObj ps" ..
  ultimately show ?thesis by (simp add: skipped_def isEmptyObject_def keys_def)
qed

text \<open>One object on both sides gives the empty diff, as the test \<open>lhs === rhs\<close> would.\<close>

lemma deepDiff_same: "deepDiff eq v v = JObj []"
proof (cases "both_objects_or_arrays v v")
  case True
  with deep_equal_refl show ?thesis by (rule deep_equal_empty_diff)
next
  case False
  then show ?thesis
    by (cases v) (simp_all add: deepDiff_not_objects deepDiff_dates)
qed

text \<open>A value that is not equal to the previous one is recorded as the previous value,
  unless both are plain objects or both are arrays.\<close>

lemma deepDiff_previous:
  assumes "compatible l r" and "\<not> deep_equal l r" and "\<not> both_objects_or_arrays l r"
  shows "deepDiff eq l r = r"
proof (cases "isObject l \<and> isObject r")
  case True
  with assms(1,3) have "isDate l \<and> isDate r"
    by (subst (asm) compatible.simps) simp
  then obtain a b where "l = JDate a" "r = JDate b"
    by (cases l; cases r) simp_all
  with assms(2) show ?thesis by (simp add: deepDiff_dates)
next
  case False
  from assms(2,3) have "l \<noteq> r" by (simp add: deep_equal_other)
  with False show ?thesis by (cases l; cases r) (simp_all add: deepDiff_not_objects)
qed

text \<open>The diff of two plain objects, or of two arrays, that agree in kind is an object
  with the entries that \<open>recorded_field\<close> describes, and no others.\<close>

lemma deepDiff_fields:
  assumes "both_objects_or_arrays l r" and "compatible l r"
  shows "\<exists>ps. deepDiff eq l r = JObj ps
    \<and> (\<forall>k. map_of ps k = recorded_field eq (own_props l) (own_props r) k)"
proof -
  from deepDiff_both_obj [OF assms(1)] obtain ps where ps: "deepDiff eq l r = JObj ps" ..
  have "map_of ps k = recorded_field eq (own_props l) (own_props r) k" for k
  proof (cases "has_own (own_props l) k \<and> has_own (own_props r) k")
    case True
    then have c: "compatible (obj_get (own_props l) k) (obj_get (own_props r) k)"
      using compatible_both [OF assms] by blast
    show ?thesis
      using map_of_deepDiff_both [OF assms(1), of eq k] True
      by (simp add: ps recorded_field_def skipped_deep_equal [OF c] deepDiff_previous [OF c])
  next
    case False
    then show ?thesis
      using map_of_deepDiff_both [OF assms(1), of eq k]
      by (auto simp: ps recorded_field_def)
  qed
  with ps show ?thesis by blast
qed

text \<open>Against the empty object, the diff is the other object.\<close>

lemma fold_rebuild:
  "distinct (keys (acc @ ps)) \<Longrightarrow>
   fold (\<lambda>key a. obj_set key (obj_get (acc @ ps) key) a) (keys ps) acc = acc @ ps"
proof (induction ps arbitrary: acc)
  case Nil
  show ?case by (simp add: keys_def)
next
  case (Cons p ps)
  obtain k v where p: "p = (k, v)" by (cases p)
  from Cons.prems have nk: "k \<notin> set (keys acc)" by (auto simp: p keys_def)
  have set_new: "obj_set k v acc = acc @ [(k, v)]" if "k \<notin> set (keys acc)" for acc
    using that by (induction acc) (auto simp: keys_def)
  have g: "obj_get (acc @ p # ps) k = v"
    using nk by (simp add: obj_get_def p keys_def map_add_def map_of_eq_None_iff [THEN iffD2])
  have "distinct (keys ((acc @ [p]) @ ps))" using Cons.prems by simp
  from Cons.IH [OF this] show ?case
    by (simp add: keys_def p g [unfolded p] set_new [OF nk])
qed

lemma deepDiff_against_empty:
  "distinct (keys b) \<Longrightarrow> deepDiff eq (JObj []) (JObj b) = JObj b"
  using fold_rebuild [of "[]" b]
  by (simp add: deepDiff_containers hasOwnProperty_obj own_value_obj has_own_def keys_def)

text \<open>The keys of an array are the decimal numerals of its indices, which are distinct,
  and the property under the numeral of an index is the element at that index.\<close>

lemma string_of_nat_nonempty: "string_of_nat n \<noteq> []"
  by (subst string_of_nat.simps) simp

lemma digit_inj:
  "a < 10 \<Longrightarrow> b < 10 \<Longrightarrow> (char_of (48 + a :: nat) :: char) = char_of (48 + b) \<Longrightarrow> a = b"
proof -
  assume a: "a < 10" and b: "b < 10" and e: "(char_of (48 + a :: nat) :: char) = char_of (48 + b)"
  from e have "(of_char (char_of (48 + a :: nat) :: char) :: nat) = of_char (char_of (48 + b) :: char)"
    by simp
  with a b show "a = b" by simp
qed

lemma string_of_nat_inj: "string_of_nat m = string_of_nat n \<Longrightarrow> m = n"
proof (induction m arbitrary: n rule: string_of_nat.induct)
  case (1 m)
  show ?case
  proof (cases "m < 10")
    case True
    then have m: "string_of_nat m = [char_of (48 + m)]"
      by (subst string_of_nat.simps) simp
    show ?thesis
    proof (cases "n < 10")
      case n: True
      then have "string_of_nat n = [char_of (48 + n)]"
        by (subst string_of_nat.simps) simp
      with m "1.prems" True n show ?thesis by (auto dest: digit_inj)
    next
      case n: False
      then have "string_of_nat n = string_of_nat (n div 10) @ [char_of (48 + n mod 10)]"
        by (subst string_of_nat.simps) simp
      with m "1.prems" string_of_nat_nonempty [of "n div 10"] show ?thesis by simp
    qed
  next
    case False
    then have m: "string_of_nat m = string_of_nat (m div 10) @ [char_of (48 + m mod 10)]"
      by (subst string_of_nat.simps) simp
    show ?thesis
    proof (cases "n < 10")
      case n: True
      then have "string_of_nat n = [char_of (48 + n)]"
        by (subst string_of_nat.simps) simp
      with m "1.prems" string_of_nat_nonempty [of "m div 10"] show ?thesis by simp
    next
      case n: False
      then have "string_of_nat n = string_of_nat (n div 10) @ [char_of (48 + n mod 10)]"
        by (subst string_of_nat.simps) simp
      with m "1.prems" have e: "string_of_nat (m div 10) = string_of_nat (n div 10)"
        and d: "(char_of (48 + m mod 10) :: char) = char_of (48 + n mod 10)"
        by simp_all
      from "1.IH" [OF False e] have "m div 10 = n div 10" .
      moreover from d have "m mod 10 = n mod 10"
        by (rule digit_inj [rotated 2]) simp_all
      ultimately show ?thesis
        by (metis div_mult_mod_eq)
    qed
  qed
qed

lemma map_fst_zip_apply:
  "length as = length bs \<Longrightarrow> map (\<lambda>x. f (fst x)) (zip as bs) = map f as"
  by (induction as bs rule: list_induct2) simp_all

lemma keys_own_props_arr:
  "keys (own_props (JArr xs)) = map string_of_nat [0..<length xs]"
  by (simp add: keys_def enumerate_eq_zip split_def o_def map_fst_zip_apply)

lemma map_of_own_props_arr:
  "i < length xs \<Longrightarrow> map_of (own_props (JArr xs)) (string_of_nat i) = Some (xs ! i)"
proof -
  assume i: "i < length xs"
  have d: "distinct (map fst (own_props (JArr xs)))"
    using keys_own_props_arr [of xs]
    by (simp add: keys_def distinct_map inj_on_def del: own_props.simps)
       (auto dest: string_of_nat_inj)
  have "(string_of_nat i, xs ! i) \<in> set (own_props (JArr xs))"
    using i by (auto simp: in_set_enumerate_eq image_iff intro!: bexI [of _ "(i, xs ! i)"])
  with d show ?thesis by (rule map_of_is_SomeI)
qed

lemma obj_get_own_props_arr:
  "i < length xs \<Longrightarrow> obj_get (own_props (JArr xs)) (string_of_nat i) = xs ! i"
  by (simp add: obj_get_def map_of_own_props_arr del: own_props.simps)

lemma arr_keys_eq:
  "(set (keys (own_props (JArr xs))) = set (keys (own_props (JArr ys)))) = (length xs = length ys)"
proof
  assume "set (keys (own_props (JArr xs))) = set (keys (own_props (JArr ys)))"
  then have "string_of_nat ` {0..<length xs} = string_of_nat ` {0..<length ys}"
    by (simp add: keys_own_props_arr del: own_props.simps)
  moreover have "inj string_of_nat"
    by (rule injI) (rule string_of_nat_inj)
  ultimately have "{0..<length xs} = {0..<length ys}"
    by (simp add: inj_image_eq_iff)
  then show "length xs = length ys"
    by (metis atLeastLessThan_iff le0 less_irrefl linorder_neqE_nat)
next
  assume "length xs = length ys"
  then show "set (keys (own_props (JArr xs))) = set (keys (own_props (JArr ys)))"
    by (simp add: keys_own_props_arr del: own_props.simps)
qed

text \<open>Two arrays are structurally equal when they have the same length and their
  elements are structurally equal, position by position.\<close>

lemma deep_equal_arrays:
  "deep_equal (JArr xs) (JArr ys) = list_all2 deep_equal xs ys"
proof -
  have "deep_equal (JArr xs) (JArr ys)
      = (length xs = length ys
         \<and> (\<forall>k \<in> set (keys (own_props (JArr xs))).
              deep_equal (obj_get (own_props (JArr xs)) k) (obj_get (own_props (JArr ys)) k)))"
    by (simp add: arr_keys_eq del: own_props.simps)
  also have "\<dots> = (length xs = length ys \<and> (\<forall>i < length xs. deep_equal (xs ! i) (ys ! i)))"
    by (auto simp: keys_own_props_arr obj_get_own_props_arr simp del: own_props.simps)
  also have "\<dots> = list_all2 deep_equal xs ys"
    by (simp add: list_all2_conv_all_nth)
  finally show ?thesis .
qed

section \<open>What Diff-and-Record writes\<close>

lemma beforeUpdate_same:
  "own_props (deepDiff eq (JObj (or_empty (event_entity event)))
                (JObj (or_empty (databaseEntity event)))) = [] \<Longrightarrow>
   beforeUpdate eq sub m event db = Inr db"
  by (cases sub) (simp add: beforeUpdate.simps isEmptyObj_deepDiff Let_def)

lemma beforeUpdate_changed:
  "own_props (deepDiff eq (JObj (or_empty (event_entity event)))
                (JObj (or_empty (databaseEntity event)))) \<noteq> [] \<Longrightarrow>
   beforeUpdate eq (MyEntitySubscriber entityClass historyEntityName) m event db =
     (case config m of
        None \<Rightarrow> Inl TypeError
      | Some c \<Rightarrow>
          (case getRepository c (TargetName historyEntityName) of
             Inl e \<Rightarrow> Inl e
           | Inr historyRepository \<Rightarrow>
               repository_save historyRepository
                 (repository_create
                    [(''origin'', obj_get (or_empty (databaseEntity event)) ''id''),
                     (''diff'', deepDiff eq (JObj (or_empty (event_entity event)))
                                  (JObj (or_empty (databaseEntity event)))),
                     (''historyDetails'', obj_get (queryRunner_data event) ''historyDetails'')])
                 db))"
  by (simp add: beforeUpdate.simps isEmptyObj_deepDiff Let_def)

text \<open>The failures are propagated, and a failed call has written nothing: before
  \<open>setup\<close>, the read of \<open>HistoryModule.config.getRepository\<close> throws; an error of
  \<open>getRepository\<close> or of \<open>save\<close> is the error of \<open>beforeUpdate\<close>.\<close>

lemma beforeUpdate_failures:
  assumes "own_props (deepDiff eq (JObj (or_empty (event_entity event)))
                       (JObj (or_empty (databaseEntity event)))) \<noteq> []"
  shows "config m = None \<Longrightarrow>
           beforeUpdate eq (MyEntitySubscriber entityClass historyEntityName) m event db
             = Inl TypeError"
    and "config m = Some c \<Longrightarrow> getRepository c (TargetName historyEntityName) = Inl e \<Longrightarrow>
           beforeUpdate eq (MyEntitySubscriber entityClass historyEntityName) m event db = Inl e"
    and "config m = Some c \<Longrightarrow> getRepository c (TargetName historyEntityName) = Inr repo \<Longrightarrow>
           \<not> available db \<Longrightarrow>
           beforeUpdate eq (MyEntitySubscriber entityClass historyEntityName) m event db
             = Inl PersistenceError"
  unfolding beforeUpdate_changed [OF assms]
  by (simp, simp, cases repo, simp)

lemma obj_get_absent: "\<not> has_own ps k \<Longrightarrow> obj_get ps k = JUndefined"
  by (simp add: has_own_def keys_def obj_get_def map_of_eq_None_iff [THEN iffD2])

text \<open>A successful write appends one row, with the three properties that
  \<open>beforeUpdate\<close> passes to \<open>create\<close>.\<close>

lemma beforeUpdate_writes:
  assumes "own_props (deepDiff eq (JObj (or_empty (event_entity event)))
                       (JObj (or_empty (databaseEntity event)))) \<noteq> []"
    and "config m = Some c"
    and "getRepository c (TargetName historyEntityName) = Inr (Repository r)"
    and "available db"
  shows "beforeUpdate eq (MyEntitySubscriber entityClass historyEntityName) m event db
          = Inr (db\<lparr>rows := rows db @
              [(r, \<lparr>id' = JNum (1 + int (length (filter (\<lambda>(r', h'). r' = r) (rows db)))),
                    origin = obj_get (or_empty (databaseEntity event)) ''id'',
                    diff = deepDiff eq (JObj (or_empty (event_entity event)))
                             (JObj (or_empty (databaseEntity event))),
                    historyDetails = obj_get (queryRunner_data event) ''historyDetails'',
                    createdAt = JDate (clock db)\<rparr>)]\<rparr>)"
  unfolding beforeUpdate_changed [OF assms(1)]
  using assms(2-4) by (simp add: repository_create_def obj_get_def)

text \<open>
  Claim C3. For every update whose incoming state is structurally equal to the previous
  state, the computed diff has no keys and \<open>beforeUpdate\<close> returns without an error
  and with the database as it was: it writes no history entry. This holds whether or not
  \<open>setup\<close> was called and whether or not the storage is available.
\<close>

theorem unchanged_update_writes_nothing:
  assumes "deep_equal (JObj (or_empty (event_entity event)))
             (JObj (or_empty (databaseEntity event)))"
  shows "keys (own_props (deepDiff looseEquals (JObj (or_empty (event_entity event)))
                            (JObj (or_empty (databaseEntity event))))) = []
    \<and> beforeUpdate looseEquals sub m event db = Inr db"
proof -
  from assms have "deepDiff looseEquals (JObj (or_empty (event_entity event)))
      (JObj (or_empty (databaseEntity event))) = JObj []"
    by (rule deep_equal_empty_diff) simp
  then have e: "own_props (deepDiff looseEquals (JObj (or_empty (event_entity event)))
      (JObj (or_empty (databaseEntity event)))) = []"
    by simp
  with beforeUpdate_same [OF e] show ?thesis by (simp add: keys_def)
qed

theorem unchanged_update_writes_nothing_witness:
  "deep_equal (JObj (or_empty (event_entity reordered_update)))
     (JObj (or_empty (databaseEntity reordered_update)))
   \<and> or_empty (event_entity reordered_update) \<noteq> or_empty (databaseEntity reordered_update)
   \<and> beforeUpdate never_equal user_subscriber user_module reordered_update empty_db
       = Inr empty_db"
proof -
  have 1: "deep_equal (JObj (or_empty (event_entity reordered_update)))
     (JObj (or_empty (databaseEntity reordered_update)))"
    by code_simp
  have 2: "or_empty (event_entity reordered_update) \<noteq> or_empty (databaseEntity reordered_update)"
    by code_simp
  from unchanged_update_writes_nothing [OF 1] 1 2 show ?thesis by blast
qed

text \<open>
  Claim C4. For every update whose computed diff has a key, when \<open>setup\<close> was called,
  its \<open>getRepository\<close> resolves the name of the history entity to a repository and the
  storage accepts the write, \<open>beforeUpdate\<close> persists exactly one history entry: the
  database afterwards is the database before with one row appended for that
  repository. The row's \<open>origin\<close> is the \<open>id\<close> of the previous record, its \<open>diff\<close> is the
  computed diff, and its \<open>historyDetails\<close> is the \<open>historyDetails\<close> of the operation's
  data, which is \<open>undefined\<close> when the data has none; \<open>id\<close> and \<open>createdAt\<close> are
  assigned by the persistence layer.
\<close>

theorem changed_update_writes_one_entry:
  assumes "keys (own_props (deepDiff looseEquals (JObj (or_empty (event_entity event)))
                              (JObj (or_empty (databaseEntity event))))) \<noteq> []"
    and "config m = Some c"
    and "getRepository c (TargetName historyEntityName) = Inr (Repository r)"
    and "available db"
  shows "beforeUpdate looseEquals (MyEntitySubscriber entityClass historyEntityName) m event db
          = Inr (db\<lparr>rows := rows db @
              [(r, \<lparr>id' = JNum (1 + int (length (filter (\<lambda>(r', h'). r' = r) (rows db)))),
                    origin = obj_get (or_empty (databaseEntity event)) ''id'',
                    diff = deepDiff looseEquals (JObj (or_empty (event_entity event)))
                             (JObj (or_empty (databaseEntity event))),
                    historyDetails = obj_get (queryRunner_data event) ''historyDetails'',
                    createdAt = JDate (clock db)\<rparr>)]\<rparr>)
    \<and> (has_own (queryRunner_data event) ''historyDetails''
        \<or> obj_get (queryRunner_data event) ''historyDetails'' = JUndefined)"
proof -
  from assms(1) have "own_props (deepDiff looseEquals (JObj (or_empty (event_entity event)))
      (JObj (or_empty (databaseEntity event)))) \<noteq> []"
    by (simp add: keys_def)
  from beforeUpdate_writes [OF this assms(2-4)] obj_get_absent show ?thesis by blast
qed

theorem changed_update_writes_one_entry_witness:
  "keys (own_props (deepDiff never_equal (JObj (or_empty (event_entity annotated_update)))
                      (JObj (or_empty (databaseEntity annotated_update))))) \<noteq> []
   \<and> config user_module = Some by_name
   \<and> getRepository by_name (TargetName ''user_history'') = Inr (Repository ''user_history'')
   \<and> available empty_db
   \<and> beforeUpdate never_equal (MyEntitySubscriber user_class ''user_history'') user_module
        annotated_update empty_db
      = Inr (empty_db\<lparr>rows :=
          [(''user_history'',
            \<lparr>id' = JNum 1, origin = JNum 7, diff = JObj [(''b'', JNum 2)],
             historyDetails = JObj [(''editor'', JStr ''John Doe'')],
             createdAt = JDate 1000\<rparr>)]\<rparr>)"
proof -
  have 1: "keys (own_props (deepDiff never_equal (JObj (or_empty (event_entity annotated_update)))
                      (JObj (or_empty (databaseEntity annotated_update))))) \<noteq> []"
    by code_simp
  have 2: "config user_module = Some by_name"
    by (simp add: user_module_def setup_module_def)
  have 3: "getRepository by_name (TargetName ''user_history'') = Inr (Repository ''user_history'')"
    by (simp add: by_name_def)
  have 4: "available empty_db"
    by (simp add: empty_db_def)
  have 5: "deepDiff never_equal (JObj (or_empty (event_entity annotated_update)))
             (JObj (or_empty (databaseEntity annotated_update))) = JObj [(''b'', JNum 2)]"
    by code_simp
  have 6: "obj_get (or_empty (databaseEntity annotated_update)) ''id'' = JNum 7"
    "obj_get (queryRunner_data annotated_update) ''historyDetails''
       = JObj [(''editor'', JStr ''John Doe'')]"
    by code_simp+
  have 7: "rows empty_db = []" "clock empty_db = 1000"
    by (simp_all add: empty_db_def)
  from changed_update_writes_one_entry [OF 1 2 3 4, of user_class]
  have "beforeUpdate never_equal (MyEntitySubscriber user_class ''user_history'') user_module
        annotated_update empty_db
      = Inr (empty_db\<lparr>rows :=
          [(''user_history'',
            \<lparr>id' = JNum 1, origin = JNum 7, diff = JObj [(''b'', JNum 2)],
             historyDetails = JObj [(''editor'', JStr ''John Doe'')],
             createdAt = JDate 1000\<rparr>)]\<rparr>)"
    by (simp add: 5 6 7)
  with 1 2 3 4 show ?thesis by blast
qed

text \<open>
  Claim C1, as the code has it. \<open>beforeUpdate\<close> computes \<open>deepDiff(newEntity, oldEntity)\<close>,
  the diff from the incoming state to the previous one, so the values it records are
  the previous ones. Take an update whose two states agree in kind: wherever both have
  an object, the two are both plain objects, both arrays or both dates. Whenever
  \<open>beforeUpdate\<close> records an entry for it, the entry's diff is an object that has
  exactly the keys whose values differ structurally between the incoming and the
  previous state (a key that only one of them has is among these), and it maps each
  such key to the previous (database) value: to \<open>undefined\<close> for a key that only the
  incoming state has and, when both values are plain objects or both are arrays, to the
  diff of the two values. The same description holds for the diff of any two plain
  objects or arrays that agree in kind, and so for the nested diffs.
\<close>

theorem recorded_diff_fields:
  assumes "beforeUpdate looseEquals sub m event db = Inr db'" and "db' \<noteq> db"
    and "compatible (JObj (or_empty (event_entity event)))
           (JObj (or_empty (databaseEntity event)))"
  shows "(\<exists>r row ps.
        db' = db\<lparr>rows := rows db @ [(r, row)]\<rparr>
      \<and> diff row = JObj ps
      \<and> (\<forall>k. map_of ps k
            = recorded_field looseEquals (or_empty (event_entity event))
                (or_empty (databaseEntity event)) k))
    \<and> (\<forall>l r. both_objects_or_arrays l r \<and> compatible l r
          \<longrightarrow> (\<exists>ps. deepDiff looseEquals l r = JObj ps
                \<and> (\<forall>k. map_of ps k
                      = recorded_field looseEquals (own_props l) (own_props r) k)))"
proof -
  let ?new = "or_empty (event_entity event)" and ?old = "or_empty (databaseEntity event)"
  obtain entityClass historyEntityName where
    sub: "sub = MyEntitySubscriber entityClass historyEntityName"
    by (cases sub)
  have n: "own_props (deepDiff looseEquals (JObj ?new) (JObj ?old)) \<noteq> []"
    using assms(1,2) beforeUpdate_same [of looseEquals event sub m db] by auto
  note run = assms(1) [unfolded sub beforeUpdate_changed [OF n]]
  from run obtain c where c: "config m = Some c"
    by (cases "config m") simp_all
  from run c obtain repo where "getRepository c (TargetName historyEntityName) = Inr repo"
    by (cases "getRepository c (TargetName historyEntityName)") simp_all
  then obtain r where r: "getRepository c (TargetName historyEntityName) = Inr (Repository r)"
    by (cases repo) simp
  from run c r have a: "available db"
    by (cases "available db") simp_all
  let ?row = "\<lparr>id' = JNum (1 + int (length (filter (\<lambda>(r', h'). r' = r) (rows db)))),
      origin = obj_get ?old ''id'', diff = deepDiff looseEquals (JObj ?new) (JObj ?old),
      historyDetails = obj_get (queryRunner_data event) ''historyDetails'',
      createdAt = JDate (clock db)\<rparr>"
  from beforeUpdate_writes [OF n c r a, of entityClass] assms(1)
  have 1: "db' = db\<lparr>rows := rows db @ [(r, ?row)]\<rparr>"
    by (simp add: sub)
  from deepDiff_fields [OF _ assms(3), of looseEquals] obtain ps where
    2: "diff ?row = JObj ps" "\<forall>k. map_of ps k = recorded_field looseEquals ?new ?old k"
    by auto
  from 1 2 have "\<exists>r row ps.
        db' = db\<lparr>rows := rows db @ [(r, row)]\<rparr>
      \<and> diff row = JObj ps
      \<and> (\<forall>k. map_of ps k = recorded_field looseEquals ?new ?old k)"
    by blast
  with deepDiff_fields show ?thesis by blast
qed

text \<open>The update of the claim, from \<open>{a: 1, b: 2}\<close> to \<open>{a: 1, b: 3}\<close>: an entry is
  recorded, and its diff is \<open>{b: 2}\<close>.\<close>

theorem recorded_diff_fields_witness:
  "beforeUpdate never_equal user_subscriber user_module claim_update empty_db
     = Inr (empty_db\<lparr>rows :=
          [(''user_history'',
            \<lparr>id' = JNum 1, origin = JUndefined, diff = JObj [(''b'', JNum 2)],
             historyDetails = JUndefined, createdAt = JDate 1000\<rparr>)]\<rparr>)
   \<and> empty_db\<lparr>rows :=
          [(''user_history'',
            \<lparr>id' = JNum 1, origin = JUndefined, diff = JObj [(''b'', JNum 2)],
             historyDetails = JUndefined, createdAt = JDate 1000\<rparr>)]\<rparr> \<noteq> empty_db
   \<and> compatible (JObj (or_empty (event_entity claim_update)))
        (JObj (or_empty (databaseEntity claim_update)))
   \<and> (\<exists>r row ps.
        empty_db\<lparr>rows :=
          [(''user_history'',
            \<lparr>id' = JNum 1, origin = JUndefined, diff = JObj [(''b'', JNum 2)],
             historyDetails = JUndefined, createdAt = JDate 1000\<rparr>)]\<rparr>
          = empty_db\<lparr>rows := rows empty_db @ [(r, row)]\<rparr>
      \<and> diff row = JObj ps
      \<and> (\<forall>k. map_of ps k
            = recorded_field never_equal (or_empty (event_entity claim_update))
                (or_empty (databaseEntity claim_update)) k))
   \<and> recorded_field never_equal (or_empty (event_entity claim_update))
        (or_empty (databaseEntity claim_update)) ''a'' = None
   \<and> recorded_field never_equal (or_empty (event_entity claim_update))
        (or_empty (databaseEntity claim_update)) ''b'' = Some (JNum 2)"
proof -
  have 1: "beforeUpdate never_equal user_subscriber user_module claim_update empty_db
     = Inr (empty_db\<lparr>rows :=
          [(''user_history'',
            \<lparr>id' = JNum 1, origin = JUndefined, diff = JObj [(''b'', JNum 2)],
             historyDetails = JUndefined, createdAt = JDate 1000\<rparr>)]\<rparr>)"
    by code_simp
  have 2: "empty_db\<lparr>rows :=
          [(''user_history'',
            \<lparr>id' = JNum 1, origin = JUndefined, diff = JObj [(''b'', JNum 2)],
             historyDetails = JUndefined, createdAt = JDate 1000\<rparr>)]\<rparr> \<noteq> empty_db"
    by (simp add: empty_db_def)
  have 3: "compatible (JObj (or_empty (event_entity claim_update)))
        (JObj (or_empty (databaseEntity claim_update)))"
    by code_simp
  have 4: "recorded_field never_equal (or_empty (event_entity claim_update))
        (or_empty (databaseEntity claim_update)) ''a'' = None"
    by code_simp
  have 5: "recorded_field never_equal (or_empty (event_entity claim_update))
        (or_empty (databaseEntity claim_update)) ''b'' = Some (JNum 2)"
    by code_simp
  from recorded_diff_fields [OF 1 2 3] 1 2 3 4 5 show ?thesis by blast
qed

text \<open>The claim as it is stated fails on its own example: for the previous state
  \<open>{a: 1, b: 2}\<close> and the incoming state \<open>{a: 1, b: 3}\<close>, the recorded diff maps \<open>b\<close> to
  its previous value 2, not to its incoming value 3. And a key whose two values are
  arrays or plain objects is mapped to neither of its values but to their diff: for the
  previous state \<open>{tags: [1, 2], n: {x: 1, y: 2}}\<close> and the incoming state
  \<open>{tags: [1, 3], n: {x: 1, y: 3}}\<close>, the recorded diff is
  \<open>{tags: {1: 2}, n: {y: 2}}\<close>.\<close>

theorem recorded_diff_counterexample:
  "databaseEntity claim_update = Some [(''a'', JNum 1), (''b'', JNum 2)]
   \<and> event_entity claim_update = Some [(''a'', JNum 1), (''b'', JNum 3)]
   \<and> beforeUpdate never_equal user_subscriber user_module claim_update empty_db
     = Inr (empty_db\<lparr>rows :=
          [(''user_history'',
            \<lparr>id' = JNum 1, origin = JUndefined, diff = JObj [(''b'', JNum 2)],
             historyDetails = JUndefined, createdAt = JDate 1000\<rparr>)]\<rparr>)
   \<and> JObj [(''b'', JNum 2)] \<noteq> JObj [(''b'', JNum 3)]
   \<and> beforeUpdate never_equal user_subscriber user_module nested_update empty_db
     = Inr (empty_db\<lparr>rows :=
          [(''user_history'',
            \<lparr>id' = JNum 1, origin = JUndefined,
             diff = JObj [(''tags'', JObj [(''1'', JNum 2)]), (''n'', JObj [(''y'', JNum 2)])],
             historyDetails = JUndefined, createdAt = JDate 1000\<rparr>)]\<rparr>)"
proof -
  have 1: "beforeUpdate never_equal user_subscriber user_module claim_update empty_db
     = Inr (empty_db\<lparr>rows :=
          [(''user_history'',
            \<lparr>id' = JNum 1, origin = JUndefined, diff = JObj [(''b'', JNum 2)],
             historyDetails = JUndefined, createdAt = JDate 1000\<rparr>)]\<rparr>)"
    by code_simp
  have 2: "beforeUpdate never_equal user_subscriber user_module nested_update empty_db
     = Inr (empty_db\<lparr>rows :=
          [(''user_history'',
            \<lparr>id' = JNum 1, origin = JUndefined,
             diff = JObj [(''tags'', JObj [(''1'', JNum 2)]), (''n'', JObj [(''y'', JNum 2)])],
             historyDetails = JUndefined, createdAt = JDate 1000\<rparr>)]\<rparr>)"
    by code_simp
  from 1 2 show ?thesis by (simp add: claim_update_def)
qed

text \<open>
  Claim C7. For every update event whose incoming state is absent or empty, the diff is
  computed against the empty object, and it is the whole previous state: every field of
  the previous state is in it, with its value. When the previous state has a field (and
  \<open>setup\<close> was called, \<open>getRepository\<close> resolves the history entity and the storage
  accepts the write), one history entry with the whole previous state as its diff is
  written.
\<close>

theorem absent_incoming_records_previous:
  assumes "event_entity event = None \<or> event_entity event = Some []"
    and "distinct (keys (or_empty (databaseEntity event)))"
  shows "or_empty (event_entity event) = []
    \<and> deepDiff looseEquals (JObj (or_empty (event_entity event)))
          (JObj (or_empty (databaseEntity event)))
        = JObj (or_empty (databaseEntity event))
    \<and> (or_empty (databaseEntity event) \<noteq> [] \<and> config m = Some c
        \<and> getRepository c (TargetName historyEntityName) = Inr (Repository r) \<and> available db
        \<longrightarrow> beforeUpdate looseEquals (MyEntitySubscriber entityClass historyEntityName) m event db
          = Inr (db\<lparr>rows := rows db @
              [(r, \<lparr>id' = JNum (1 + int (length (filter (\<lambda>(r', h'). r' = r) (rows db)))),
                    origin = obj_get (or_empty (databaseEntity event)) ''id'',
                    diff = JObj (or_empty (databaseEntity event)),
                    historyDetails = obj_get (queryRunner_data event) ''historyDetails'',
                    createdAt = JDate (clock db)\<rparr>)]\<rparr>))"
proof -
  let ?old = "or_empty (databaseEntity event)"
  from assms(1) have e: "or_empty (event_entity event) = []"
    by (auto simp: or_empty_def)
  have d: "deepDiff looseEquals (JObj (or_empty (event_entity event))) (JObj ?old) = JObj ?old"
    unfolding e using assms(2) by (rule deepDiff_against_empty)
  have "beforeUpdate looseEquals (MyEntitySubscriber entityClass historyEntityName) m event db
          = Inr (db\<lparr>rows := rows db @
              [(r, \<lparr>id' = JNum (1 + int (length (filter (\<lambda>(r', h'). r' = r) (rows db)))),
                    origin = obj_get ?old ''id'',
                    diff = JObj ?old,
                    historyDetails = obj_get (queryRunner_data event) ''historyDetails'',
                    createdAt = JDate (clock db)\<rparr>)]\<rparr>)"
    if "?old \<noteq> []" "config m = Some c"
      "getRepository c (TargetName historyEntityName) = Inr (Repository r)" "available db"
  proof -
    from that(1) have "own_props (deepDiff looseEquals (JObj (or_empty (event_entity event)))
        (JObj ?old)) \<noteq> []"
      by (simp add: d)
    from beforeUpdate_writes [OF this that(2-4), of entityClass] show ?thesis
      by (simp add: d)
  qed
  with e d show ?thesis by blast
qed

theorem absent_incoming_records_previous_witness:
  "event_entity absent_update = None
   \<and> distinct (keys (or_empty (databaseEntity absent_update)))
   \<and> deepDiff never_equal (JObj (or_empty (event_entity absent_update)))
        (JObj (or_empty (databaseEntity absent_update)))
      = JObj [(''id'', JNum 7), (''a'', JNum 1), (''b'', JNum 2)]
   \<and> beforeUpdate never_equal (MyEntitySubscriber user_class ''user_history'') user_module
        absent_update empty_db
      = Inr (empty_db\<lparr>rows :=
          [(''user_history'',
            \<lparr>id' = JNum 1, origin = JNum 7,
             diff = JObj [(''id'', JNum 7), (''a'', JNum 1), (''b'', JNum 2)],
             historyDetails = JUndefined, createdAt = JDate 1000\<rparr>)]\<rparr>)"
proof -
  have 1: "event_entity absent_update = None"
    by (simp add: absent_update_def)
  have 2: "distinct (keys (or_empty (databaseEntity absent_update)))"
    by code_simp
  have 3: "or_empty (databaseEntity absent_update)
      = [(''id'', JNum 7), (''a'', JNum 1), (''b'', JNum 2)]"
    by (simp add: absent_update_def or_empty_def)
  have 4: "config user_module = Some by_name"
    by (simp add: user_module_def setup_module_def)
  have 5: "getRepository by_name (TargetName ''user_history'') = Inr (Repository ''user_history'')"
    by (simp add: by_name_def)
  have 6: "available empty_db" "rows empty_db = []" "clock empty_db = 1000"
    by (simp_all add: empty_db_def)
  have 7: "obj_get [(''id'', JNum 7), (''a'', JNum 1), (''b'', JNum 2)] ''id'' = JNum 7"
    "obj_get (queryRunner_data absent_update) ''historyDetails'' = JUndefined"
    by code_simp+
  have 8: "or_empty (databaseEntity absent_update) \<noteq> []"
    by (simp add: 3)
  note t = absent_incoming_records_previous
    [OF disjI1 [OF 1] 2, of never_equal user_module by_name "''user_history''"
      "''user_history''" empty_db user_class]
  from t have a: "deepDiff never_equal (JObj (or_empty (event_entity absent_update)))
        (JObj (or_empty (databaseEntity absent_update)))
      = JObj (or_empty (databaseEntity absent_update))"
    by blast
  from t 8 4 5 6(1) have "beforeUpdate never_equal (MyEntitySubscriber user_class ''user_history'')
        user_module absent_update empty_db
      = Inr (empty_db\<lparr>rows := rows empty_db @
          [(''user_history'',
            \<lparr>id' = JNum (1 + int (length (filter (\<lambda>(r', h'). r' = ''user_history'')
                                          (rows empty_db)))),
             origin = obj_get (or_empty (databaseEntity absent_update)) ''id'',
             diff = JObj (or_empty (databaseEntity absent_update)),
             historyDetails = obj_get (queryRunner_data absent_update) ''historyDetails'',
             createdAt = JDate (clock empty_db)\<rparr>)]\<rparr>)"
    by blast
  then have b: "beforeUpdate never_equal (MyEntitySubscriber user_class ''user_history'')
        user_module absent_update empty_db
      = Inr (empty_db\<lparr>rows :=
          [(''user_history'',
            \<lparr>id' = JNum 1, origin = JNum 7,
             diff = JObj [(''id'', JNum 7), (''a'', JNum 1), (''b'', JNum 2)],
             historyDetails = JUndefined, createdAt = JDate 1000\<rparr>)]\<rparr>)"
    by (simp add: 3 6 7)
  from a have c: "deepDiff never_equal (JObj (or_empty (event_entity absent_update)))
        (JObj (or_empty (databaseEntity absent_update)))
      = JObj [(''id'', JNum 7), (''a'', JNum 1), (''b'', JNum 2)]"
    by (simp add: 3)
  from 1 2 b c show ?thesis by blast
qed

end
